theory Spec2Isabelle
  imports Complex_Main "HOL-Library.Log_Nat"
begin

section \<open>Data model of \<^verbatim>\<open>src/App.tsx\<close>\<close>

text \<open>
  The application is a React component. Its state is the tuple of \<^verbatim>\<open>useState\<close> cells
  of \<^verbatim>\<open>App\<close>; every handler is modelled as a function from that state to the new state
  together with the list of platform calls the handler makes, in source order.

  A finite JavaScript number is a rational, and arithmetic on numbers rounds to IEEE 754
  binary64 (see \<open>to_double\<close> below). Infinities and NaN are not represented: the scale
  comes from a range input with \<^verbatim>\<open>min=0.25 max=2 step=0.25\<close> and the pixel
  dimensions are unsigned 32-bit integers read from the file header, so no product of
  the two leaves the finite range. Strings are lists of characters.
\<close>

datatype OutputFormat = PNG | JPG

record ParsedComposite =
  fileName :: string
  width :: nat
  height :: nat
  bitmap :: nat
  usedWorker :: bool

datatype WorkerResponse =
    ParsedMsg string nat nat nat
  | ErrorMsg string

record app =
  isDragging :: bool
  isParsing :: bool
  error :: "string option"
  parsed :: "ParsedComposite option"
  format :: OutputFormat
  jpgQuality :: rat
  jpgBackground :: string
  scale :: rat

text \<open>The initial values of the \<^verbatim>\<open>useState\<close> cells.\<close>

definition initial_app :: app where
  "initial_app =
     \<lparr>isDragging = False, isParsing = False, error = None, parsed = None,
      format = PNG, jpgQuality = 9 / 10, jpgBackground = ''#ffffff'', scale = 1\<rparr>"

subsection \<open>Platform calls\<close>

type_synonym bytes = "nat list"
type_synonym blob = nat

record read_options =
  skipLayerImageData :: bool
  skipThumbnail :: bool

datatype request =
    Parse string bytes
  | OtherRequest

text \<open>
  One constructor for each call into the browser or into the decoder library that a
  handler makes. The list a handler returns is its trace.
\<close>

datatype call =
    CreateElement string
  | SetCanvasWidth int
  | SetCanvasHeight int
  | GetContext string bool
  | SetFillStyle string
  | FillRect int int int int
  | ClearRect int int int int
  | SetImageSmoothingEnabled bool
  | SetImageSmoothingQuality string
  | DrawImage nat int int int int
  | ToBlob string "rat option"
  | CreateObjectURL blob
  | SetHref string
  | SetDownload string
  | Click
  | RevokeObjectURL string
  | ReadPsd bytes read_options
  | PostMessage request
  | WorkerPost WorkerResponse

text \<open>
  What the browser answers during an export: whether \<^verbatim>\<open>getContext('2d')\<close> yields a
  context, what \<^verbatim>\<open>toBlob\<close> hands to its callback for a MIME type and an optional
  quality, and the object URL minted for a blob.
\<close>

record platform =
  getContext_ok :: bool
  toBlob :: "string \<Rightarrow> rat option \<Rightarrow> blob option"
  createObjectURL :: "blob \<Rightarrow> string"

section \<open>Strings and numbers of the export\<close>

text \<open>
  Rounding to binary64, to nearest with ties to even. For \<open>x \<noteq> 0\<close>, \<open>binade x\<close> is the
  integer \<open>e\<close> with \<open>2\<^sup>e \<le> \<bar>x\<bar> < 2\<^sup>e\<^sup>+\<^sup>1\<close>, found from the bit lengths of numerator and
  denominator. The representable values near \<open>x\<close> are the multiples of
  \<open>2\<^sup>e\<^sup>-\<^sup>5\<^sup>2\<close>, and below the normal range (\<open>e < -1022\<close>) the multiples of \<open>2\<^sup>-\<^sup>1\<^sup>0\<^sup>7\<^sup>4\<close>.
\<close>

definition round_half_even :: "rat \<Rightarrow> int" where
  "round_half_even r =
     (let f = \<lfloor>r\<rfloor>
      in if r - of_int f < 1 / 2 then f
         else if 1 / 2 < r - of_int f then f + 1
         else if even f then f else f + 1)"

definition binade :: "rat \<Rightarrow> int" where
  "binade x =
     (let (p, q) = quotient_of x; d = bitlen \<bar>p\<bar> - bitlen q
      in if 2 powi d \<le> \<bar>x\<bar> then d else d - 1)"

definition to_double :: "rat \<Rightarrow> rat" where
  "to_double x =
     (if x = 0 then 0
      else let u = 2 powi (max (binade x) (- 1022) - 52)
           in u * of_int (round_half_even (x / u)))"

text \<open>
  The product \<^verbatim>\<open>a * b\<close> of two numbers. Each operand is read as the binary64 value
  nearest to it, which is the operand itself when it is one already and is what
  \<^verbatim>\<open>Number(e.target.value)\<close> stores for a decimal such as 0.3; the exact product of
  the two is then rounded once.
\<close>

definition double_mul :: "rat \<Rightarrow> rat \<Rightarrow> rat" where
  "double_mul a b = to_double (to_double a * to_double b)"

text \<open>The values the scale input can take: from 0.25 to 2 in steps of 0.25.\<close>

definition slider_scales :: "rat set" where
  "slider_scales = {1 / 4, 1 / 2, 3 / 4, 1, 5 / 4, 3 / 2, 7 / 4, 2}"

text \<open>
  \<^verbatim>\<open>Math.round\<close> returns the nearest integer, and of two equally near ones the one
  closer to plus infinity. It is exact on every binary64 value.
\<close>

definition Math_round :: "rat \<Rightarrow> int" where
  "Math_round x = \<lfloor>x + 1 / 2\<rfloor>"

definition exportWidth :: "ParsedComposite \<Rightarrow> rat \<Rightarrow> int" where
  "exportWidth p s = max 1 (Math_round (double_mul (of_nat (width p)) s))"

definition exportHeight :: "ParsedComposite \<Rightarrow> rat \<Rightarrow> int" where
  "exportHeight p s = max 1 (Math_round (double_mul (of_nat (height p)) s))"

text \<open>Decimal rendering of an integer, as a template literal renders an integral number.\<close>

definition digit_char :: "nat \<Rightarrow> char" where
  "digit_char d = ''0123456789'' ! d"

fun nat_digits :: "nat \<Rightarrow> string" where
  "nat_digits n = (if n < 10 then [digit_char n] else nat_digits (n div 10) @ [digit_char (n mod 10)])"

declare nat_digits.simps [simp del]

definition Number_toString :: "int \<Rightarrow> string" where
  "Number_toString i = (if i < 0 then CHR ''-'' # nat_digits (nat (- i)) else nat_digits (nat i))"

definition format_string :: "OutputFormat \<Rightarrow> string" where
  "format_string f = (case f of PNG \<Rightarrow> ''png'' | JPG \<Rightarrow> ''jpg'')"

text \<open>
  Case mapping on the ASCII letters. No character outside ASCII lower-cases to one of
  \<^verbatim>\<open>. p s d\<close>, and a regular expression with the \<^verbatim>\<open>i\<close> flag and without the
  \<^verbatim>\<open>u\<close> flag never folds a non-ASCII character onto an ASCII one, so the ASCII table
  decides both checks on the extension.
\<close>

definition toLowerChar :: "char \<Rightarrow> char" where
  "toLowerChar c =
     (case map_of (zip ''ABCDEFGHIJKLMNOPQRSTUVWXYZ'' ''abcdefghijklmnopqrstuvwxyz'') c of
        None \<Rightarrow> c | Some l \<Rightarrow> l)"

definition toLowerCase :: "string \<Rightarrow> string" where
  "toLowerCase s = map toLowerChar s"

definition toUpperChar :: "char \<Rightarrow> char" where
  "toUpperChar c =
     (case map_of (zip ''abcdefghijklmnopqrstuvwxyz'' ''ABCDEFGHIJKLMNOPQRSTUVWXYZ'') c of
        None \<Rightarrow> c | Some u \<Rightarrow> u)"

definition endsWith :: "string \<Rightarrow> string \<Rightarrow> bool" where
  "endsWith s suffix =
     (length suffix \<le> length s \<and> drop (length s - length suffix) s = suffix)"

text \<open>
  \<^verbatim>\<open>fileName.replace(/\.psd$/i, '')\<close>: the pattern is anchored at the end of the
  input, so it can only match the last four characters; with the \<^verbatim>\<open>i\<close> flag
  a pattern character and an input character match when their canonical (upper-case)
  forms agree.
\<close>

definition matches_psd_at_end :: "string \<Rightarrow> bool" where
  "matches_psd_at_end s =
     (4 \<le> length s \<and>
      map toUpperChar (drop (length s - 4) s) = map toUpperChar ''.psd'')"

definition replace_psd_ext :: "string \<Rightarrow> string" where
  "replace_psd_ext s = (if matches_psd_at_end s then take (length s - 4) s else s)"

definition download_name :: "string \<Rightarrow> int \<Rightarrow> int \<Rightarrow> OutputFormat \<Rightarrow> string" where
  "download_name fname w h f =
     replace_psd_ext fname @ ''-'' @ Number_toString w @ ''x'' @ Number_toString h
       @ ''.'' @ format_string f"

section \<open>The export handler \<^verbatim>\<open>onDownload\<close>\<close>

definition canvas_setup :: "int \<Rightarrow> int \<Rightarrow> OutputFormat \<Rightarrow> call list" where
  "canvas_setup w h f =
     [CreateElement ''canvas'', SetCanvasWidth w, SetCanvasHeight h,
      GetContext ''2d'' (f = PNG)]"

definition background_calls :: "OutputFormat \<Rightarrow> string \<Rightarrow> int \<Rightarrow> int \<Rightarrow> call list" where
  "background_calls f bg w h =
     (if f = JPG then [SetFillStyle bg, FillRect 0 0 w h] else [ClearRect 0 0 w h])"

definition draw_calls :: "nat \<Rightarrow> rat \<Rightarrow> int \<Rightarrow> int \<Rightarrow> call list" where
  "draw_calls b s w h =
     [SetImageSmoothingEnabled (s \<noteq> 1), SetImageSmoothingQuality ''high'',
      DrawImage b 0 0 w h]"

definition encode_call :: "OutputFormat \<Rightarrow> rat \<Rightarrow> call" where
  "encode_call f q =
     (if f = PNG then ToBlob ''image/png'' None else ToBlob ''image/jpeg'' (Some q))"

definition encode_result :: "platform \<Rightarrow> OutputFormat \<Rightarrow> rat \<Rightarrow> blob option" where
  "encode_result pf f q =
     (if f = PNG then toBlob pf ''image/png'' None else toBlob pf ''image/jpeg'' (Some q))"

definition anchor_calls :: "platform \<Rightarrow> blob \<Rightarrow> string \<Rightarrow> call list" where
  "anchor_calls pf b name =
     [CreateObjectURL b, CreateElement ''a'', SetHref (createObjectURL pf b),
      SetDownload name, Click, RevokeObjectURL (createObjectURL pf b)]"

definition onDownload :: "platform \<Rightarrow> app \<Rightarrow> app \<times> call list" where
  "onDownload pf st =
     (case parsed st of
        None \<Rightarrow> (st, [])
      | Some p \<Rightarrow>
          let w = exportWidth p (scale st);
              h = exportHeight p (scale st);
              c0 = canvas_setup w h (format st)
          in if \<not> getContext_ok pf
             then (st\<lparr>error := Some ''Canvas 2D context is unavailable in this browser.''\<rparr>, c0)
             else
               let c1 = c0 @ background_calls (format st) (jpgBackground st) w h
                          @ draw_calls (bitmap p) (scale st) w h
                          @ [encode_call (format st) (jpgQuality st)]
               in case encode_result pf (format st) (jpgQuality st) of
                    None \<Rightarrow> (st\<lparr>error := Some ''Export failed (toBlob returned null).''\<rparr>, c1)
                  | Some b \<Rightarrow>
                      (st, c1 @ anchor_calls pf b (download_name (fileName p) w h (format st))))"

subsection \<open>Reading a trace\<close>

text \<open>The calls of a trace that put something on the drawing surface, in order.\<close>

fun is_paint :: "call \<Rightarrow> bool" where
  "is_paint (SetFillStyle _) = True"
| "is_paint (FillRect _ _ _ _) = True"
| "is_paint (ClearRect _ _ _ _) = True"
| "is_paint (DrawImage _ _ _ _ _) = True"
| "is_paint _ = False"

fun is_fill :: "call \<Rightarrow> bool" where
  "is_fill (FillRect _ _ _ _) = True"
| "is_fill _ = False"

fun is_smoothing_or_draw :: "call \<Rightarrow> bool" where
  "is_smoothing_or_draw (SetImageSmoothingEnabled _) = True"
| "is_smoothing_or_draw (DrawImage _ _ _ _ _) = True"
| "is_smoothing_or_draw _ = False"

text \<open>The calls that make up a download: minting a URL, naming the file, the click.\<close>

fun is_download :: "call \<Rightarrow> bool" where
  "is_download (CreateObjectURL _) = True"
| "is_download (SetHref _) = True"
| "is_download (SetDownload _) = True"
| "is_download Click = True"
| "is_download _ = False"

fun download_names :: "call list \<Rightarrow> string list" where
  "download_names [] = []"
| "download_names (SetDownload n # cs) = n # download_names cs"
| "download_names (_ # cs) = download_names cs"

fun encoder_args :: "call list \<Rightarrow> (string \<times> rat option) list" where
  "encoder_args [] = []"
| "encoder_args (ToBlob m q # cs) = (m, q) # encoder_args cs"
| "encoder_args (_ # cs) = encoder_args cs"

text \<open>
  Reading a decimal numeral, independently of how one is written: the digits are folded
  from the left, and only the canonical numerals are accepted (at least one digit, no
  sign, no leading zero except for the numeral 0 itself).
\<close>

definition digit_value :: "char \<Rightarrow> nat option" where
  "digit_value c = map_of (zip ''0123456789'' [0, 1, 2, 3, 4, 5, 6, 7, 8, 9]) c"

fun read_digits :: "nat \<Rightarrow> string \<Rightarrow> nat option" where
  "read_digits acc [] = Some acc"
| "read_digits acc (c # cs) =
     (case digit_value c of None \<Rightarrow> None | Some d \<Rightarrow> read_digits (10 * acc + d) cs)"

definition read_decimal :: "string \<Rightarrow> nat option" where
  "read_decimal s =
     (if s = [] \<or> (1 < length s \<and> hd s = CHR ''0'') then None else read_digits 0 s)"

text \<open>
  The extension as the interface description words it: a dot followed by the letters
  p, s, d, each in either case.
\<close>

fun is_psd_ext :: "string \<Rightarrow> bool" where
  "is_psd_ext [c0, c1, c2, c3] =
     (c0 = CHR ''.'' \<and> (c1 = CHR ''p'' \<or> c1 = CHR ''P'') \<and>
      (c2 = CHR ''s'' \<or> c2 = CHR ''S'') \<and> (c3 = CHR ''d'' \<or> c3 = CHR ''D''))"
| "is_psd_ext _ = False"

definition ends_with_psd_ci :: "string \<Rightarrow> bool" where
  "ends_with_psd_ci s = is_psd_ext (drop (length s - 4) s)"

subsection \<open>Coverage of the drawing surface\<close>

text \<open>
  The opacity of the surface after a trace, pixel by pixel, under the source-over
  compositing of the Canvas 2D context: painting a source of opacity \<open>s\<close> over a pixel
  of opacity \<open>d\<close> leaves opacity \<open>s + d (1 - s)\<close>; \<^verbatim>\<open>clearRect\<close> resets the pixels of
  its rectangle to transparent. The opacity of a fill style and the opacity of the
  scaled bitmap at a target pixel are parameters. The surface starts transparent: the
  \<^verbatim>\<open>alpha\<close> flag of \<^verbatim>\<open>getContext\<close> is a hint and is not relied on.
\<close>

record ctx2d =
  fillStyle :: string
  alpha_at :: "int \<Rightarrow> int \<Rightarrow> rat"

definition in_rect :: "int \<Rightarrow> int \<Rightarrow> int \<Rightarrow> int \<Rightarrow> int \<Rightarrow> int \<Rightarrow> bool" where
  "in_rect x y w h px py = (x \<le> px \<and> px < x + w \<and> y \<le> py \<and> py < y + h)"

definition source_over :: "rat \<Rightarrow> rat \<Rightarrow> rat" where
  "source_over s d = s + d * (1 - s)"

fun paint :: "(string \<Rightarrow> rat) \<Rightarrow> (int \<Rightarrow> int \<Rightarrow> rat) \<Rightarrow> call \<Rightarrow> ctx2d \<Rightarrow> ctx2d" where
  "paint sa src (SetFillStyle s) c = c\<lparr>fillStyle := s\<rparr>"
| "paint sa src (FillRect x y w h) c =
     c\<lparr>alpha_at := (\<lambda>px py. if in_rect x y w h px py
                              then source_over (sa (fillStyle c)) (alpha_at c px py)
                              else alpha_at c px py)\<rparr>"
| "paint sa src (ClearRect x y w h) c =
     c\<lparr>alpha_at := (\<lambda>px py. if in_rect x y w h px py then 0 else alpha_at c px py)\<rparr>"
| "paint sa src (DrawImage b x y w h) c =
     c\<lparr>alpha_at := (\<lambda>px py. if in_rect x y w h px py
                              then source_over (src px py) (alpha_at c px py)
                              else alpha_at c px py)\<rparr>"
| "paint sa src _ c = c"

definition fresh_ctx :: ctx2d where
  "fresh_ctx = \<lparr>fillStyle = ''#000000'', alpha_at = (\<lambda>px py. 0)\<rparr>"

definition surface_alpha ::
  "(string \<Rightarrow> rat) \<Rightarrow> (int \<Rightarrow> int \<Rightarrow> rat) \<Rightarrow> call list \<Rightarrow> int \<Rightarrow> int \<Rightarrow> rat" where
  "surface_alpha sa src cs = alpha_at (fold (paint sa src) cs fresh_ctx)"

subsection \<open>Concrete inputs\<close>

definition demo_platform :: platform where
  "demo_platform =
     \<lparr>getContext_ok = True, toBlob = (\<lambda>m q. Some 7), createObjectURL = (\<lambda>b. ''blob:x'')\<rparr>"

definition demo_composite :: ParsedComposite where
  "demo_composite =
     \<lparr>fileName = ''Logo.PSD'', width = 100, height = 100, bitmap = 3, usedWorker = True\<rparr>"

definition demo_app :: app where
  "demo_app = initial_app\<lparr>parsed := Some demo_composite, scale := 1 / 2\<rparr>"

text \<open>Two states whose scale is not a slider value: the binary64 values of 0.3 and 0.7.\<close>

definition narrow_composite :: ParsedComposite where
  "narrow_composite =
     \<lparr>fileName = ''n.psd'', width = 5, height = 45, bitmap = 3, usedWorker = True\<rparr>"

definition three_tenths_app :: app where
  "three_tenths_app =
     initial_app\<lparr>parsed := Some narrow_composite, scale := to_double (3 / 10)\<rparr>"

definition seven_tenths_app :: app where
  "seven_tenths_app =
     initial_app\<lparr>parsed := Some narrow_composite, scale := to_double (7 / 10)\<rparr>"

definition no_context_platform :: platform where
  "no_context_platform = demo_platform\<lparr>getContext_ok := False\<rparr>"

definition null_blob_platform :: platform where
  "null_blob_platform = demo_platform\<lparr>toBlob := (\<lambda>m q. None)\<rparr>"

definition demo_jpg_app :: app where
  "demo_jpg_app = demo_app\<lparr>format := JPG\<rparr>"

section \<open>The parse dispatcher\<close>

text \<open>
  A \<^verbatim>\<open>throw\<close> carries either an \<^verbatim>\<open>Error\<close> object with its message or some other
  value; both \<^verbatim>\<open>catch\<close> blocks of the repository turn it into a message the same way.
\<close>

datatype thrown = ErrorObj string | NonError

definition thrown_message :: "thrown \<Rightarrow> string" where
  "thrown_message e = (case e of ErrorObj m \<Rightarrow> m | NonError \<Rightarrow> ''Failed to parse PSD.'')"

text \<open>A user-supplied file: its name, and what \<^verbatim>\<open>arrayBuffer()\<close> resolves or rejects with.\<close>

record File =
  name :: string
  arrayBuffer :: "thrown + bytes"

text \<open>
  What the decoder returns. The composite surface \<^verbatim>\<open>psd.canvas\<close> may be absent; when
  present it may or may not offer \<^verbatim>\<open>transferToImageBitmap\<close>.
\<close>

record surface =
  has_transferToImageBitmap :: bool

record psd =
  psd_width :: nat
  psd_height :: nat
  psd_canvas :: "surface option"

text \<open>
  The surroundings of the dispatcher: whether \<^verbatim>\<open>workerRef.current\<close> holds a worker,
  whether \<^verbatim>\<open>OffscreenCanvas\<close> is defined inside the worker, and the decoder
  \<^verbatim>\<open>readPsd\<close> of the external library, which returns a document or throws.
\<close>

record env =
  workerRef :: bool
  worker_has_OffscreenCanvas :: bool
  readPsd :: "bytes \<Rightarrow> read_options \<Rightarrow> thrown + psd"

text \<open>
  Image bitmaps are handles. Creating one (by \<^verbatim>\<open>createImageBitmap\<close> on the main
  thread or by \<^verbatim>\<open>transferToImageBitmap\<close> in the worker, whose result is transferred
  to the main thread) takes the next unused handle and marks it open;
  \<^verbatim>\<open>close()\<close> marks it released. Both creations are taken to succeed.
\<close>

record bitmaps =
  next_bitmap :: nat
  open_bitmaps :: "nat set"

definition no_bitmaps :: bitmaps where
  "no_bitmaps = \<lparr>next_bitmap = 0, open_bitmaps = {}\<rparr>"

definition new_bitmap :: "bitmaps \<Rightarrow> nat \<times> bitmaps" where
  "new_bitmap h =
     (next_bitmap h,
      h\<lparr>next_bitmap := Suc (next_bitmap h),
        open_bitmaps := insert (next_bitmap h) (open_bitmaps h)\<rparr>)"

definition close_bitmap :: "nat \<Rightarrow> bitmaps \<Rightarrow> bitmaps" where
  "close_bitmap b h = h\<lparr>open_bitmaps := open_bitmaps h - {b}\<rparr>"

text \<open>
  The updater both paths pass to \<^verbatim>\<open>setParsed\<close>:
  \<^verbatim>\<open>(prev) => { prev?.bitmap.close(); return next }\<close>.
\<close>

definition setParsed :: "ParsedComposite \<Rightarrow> app \<Rightarrow> bitmaps \<Rightarrow> app \<times> bitmaps" where
  "setParsed new st h =
     (st\<lparr>parsed := Some new\<rparr>,
      case parsed st of None \<Rightarrow> h | Some prev \<Rightarrow> close_bitmap (bitmap prev) h)"

subsection \<open>The worker, \<^verbatim>\<open>self.onmessage\<close>\<close>

definition worker_options :: read_options where
  "worker_options = \<lparr>skipLayerImageData = True, skipThumbnail = True\<rparr>"

definition no_composite_reply :: WorkerResponse where
  "no_composite_reply =
     ErrorMsg ''No composite image found in this PSD (or unsupported PSD features).''"

definition self_onmessage :: "env \<Rightarrow> request \<Rightarrow> bitmaps \<Rightarrow> bitmaps \<times> call list" where
  "self_onmessage e msg h =
     (case msg of
        OtherRequest \<Rightarrow> (h, [])
      | Parse fname buffer \<Rightarrow>
          if \<not> worker_has_OffscreenCanvas e
          then (h, [WorkerPost (ErrorMsg ''OffscreenCanvas is not supported in this browser.'')])
          else
            (case readPsd e buffer worker_options of
               Inl t \<Rightarrow>
                 (h, [ReadPsd buffer worker_options, WorkerPost (ErrorMsg (thrown_message t))])
             | Inr d \<Rightarrow>
                 (case psd_canvas d of
                    None \<Rightarrow> (h, [ReadPsd buffer worker_options, WorkerPost no_composite_reply])
                  | Some c \<Rightarrow>
                      if \<not> has_transferToImageBitmap c
                      then (h, [ReadPsd buffer worker_options, WorkerPost no_composite_reply])
                      else
                        let (b, h') = new_bitmap h
                        in (h', [ReadPsd buffer worker_options,
                                 WorkerPost (ParsedMsg fname (psd_width d) (psd_height d) b)]))))"

subsection \<open>The application side\<close>

text \<open>\<^verbatim>\<open>worker.onmessage\<close> of the component.\<close>

definition worker_onmessage :: "WorkerResponse \<Rightarrow> app \<Rightarrow> bitmaps \<Rightarrow> app \<times> bitmaps" where
  "worker_onmessage msg st h =
     (case msg of
        ErrorMsg m \<Rightarrow>
          (st\<lparr>isParsing := False,
              error := Some (if m = [] then ''Failed to parse PSD.'' else m)\<rparr>, h)
      | ParsedMsg fname w ht b \<Rightarrow>
          setParsed \<lparr>fileName = fname, width = w, height = ht, bitmap = b, usedWorker = True\<rparr>
            (st\<lparr>isParsing := False, error := None\<rparr>) h)"

definition main_thread_options :: read_options where
  "main_thread_options = \<lparr>skipLayerImageData = True, skipThumbnail = True\<rparr>"

text \<open>
  \<^verbatim>\<open>parseInMainThread\<close>. The first component is what the function throws, if anything.
\<close>

definition parseInMainThread ::
  "env \<Rightarrow> File \<Rightarrow> app \<Rightarrow> bitmaps \<Rightarrow> thrown option \<times> app \<times> bitmaps \<times> call list" where
  "parseInMainThread e f st h =
     (case arrayBuffer f of
        Inl t \<Rightarrow> (Some t, st, h, [])
      | Inr buffer \<Rightarrow>
          (case readPsd e buffer main_thread_options of
             Inl t \<Rightarrow> (Some t, st, h, [ReadPsd buffer main_thread_options])
           | Inr d \<Rightarrow>
               (case psd_canvas d of
                  None \<Rightarrow>
                    (Some (ErrorObj ''No composite image found in this PSD.''), st, h,
                     [ReadPsd buffer main_thread_options])
                | Some c \<Rightarrow>
                    let (b, h') = new_bitmap h;
                        (st', h'') =
                          setParsed
                            \<lparr>fileName = name f, width = psd_width d, height = psd_height d,
                             bitmap = b, usedWorker = False\<rparr> st h'
                    in (None, st', h'', [ReadPsd buffer main_thread_options]))))"

definition catch_error :: "thrown \<Rightarrow> app \<Rightarrow> app" where
  "catch_error t st = st\<lparr>isParsing := False, error := Some (thrown_message t)\<rparr>"

definition handleFile :: "env \<Rightarrow> File \<Rightarrow> app \<Rightarrow> bitmaps \<Rightarrow> app \<times> bitmaps \<times> call list" where
  "handleFile e f st h =
     (let st1 = st\<lparr>error := None, isParsing := True\<rparr>
      in if \<not> endsWith (toLowerCase (name f)) ''.psd''
         then (catch_error (ErrorObj ''Please select a .psd file.'') st1, h, [])
         else if workerRef e
         then (case arrayBuffer f of
                 Inl t \<Rightarrow> (catch_error t st1, h, [])
               | Inr buffer \<Rightarrow> (st1, h, [PostMessage (Parse (name f) buffer)]))
         else (case parseInMainThread e f st1 h of
                 (Some t, st2, h2, cs) \<Rightarrow> (catch_error t st2, h2, cs)
               | (None, st2, h2, cs) \<Rightarrow> (st2\<lparr>isParsing := False\<rparr>, h2, cs)))"

subsection \<open>Reading dispatcher traces, and whole loads\<close>

fun decoder_calls :: "call list \<Rightarrow> (bytes \<times> read_options) list" where
  "decoder_calls [] = []"
| "decoder_calls (ReadPsd b opts # cs) = (b, opts) # decoder_calls cs"
| "decoder_calls (_ # cs) = decoder_calls cs"

fun posted :: "call list \<Rightarrow> request list" where
  "posted [] = []"
| "posted (PostMessage r # cs) = r # posted cs"
| "posted (_ # cs) = posted cs"

fun replies :: "call list \<Rightarrow> WorkerResponse list" where
  "replies [] = []"
| "replies (WorkerPost r # cs) = r # replies cs"
| "replies (_ # cs) = replies cs"

text \<open>
  A whole load: the handler runs, every request it posted is served by the worker, and
  every reply of the worker is handed to \<^verbatim>\<open>worker.onmessage\<close>.
\<close>

definition receive :: "WorkerResponse \<Rightarrow> app \<times> bitmaps \<Rightarrow> app \<times> bitmaps" where
  "receive r w = worker_onmessage r (fst w) (snd w)"

definition serve :: "env \<Rightarrow> request \<Rightarrow> app \<times> bitmaps \<Rightarrow> app \<times> bitmaps" where
  "serve e r w =
     (let (h', cs) = self_onmessage e r (snd w) in fold receive (replies cs) (fst w, h'))"

definition load :: "env \<Rightarrow> File \<Rightarrow> app \<times> bitmaps \<Rightarrow> app \<times> bitmaps" where
  "load e f w =
     (let (st', h', cs) = handleFile e f (fst w) (snd w) in fold (serve e) (posted cs) (st', h'))"

definition held_bitmaps :: "app \<Rightarrow> nat set" where
  "held_bitmaps st = (case parsed st of None \<Rightarrow> {} | Some p \<Rightarrow> {bitmap p})"

subsection \<open>Concrete dispatcher inputs\<close>

definition demo_psd :: psd where
  "demo_psd = \<lparr>psd_width = 100, psd_height = 100,
               psd_canvas = Some \<lparr>has_transferToImageBitmap = True\<rparr>\<rparr>"

definition flat_psd :: psd where
  "flat_psd = \<lparr>psd_width = 100, psd_height = 100, psd_canvas = None\<rparr>"

definition demo_readPsd :: "bytes \<Rightarrow> read_options \<Rightarrow> thrown + psd" where
  "demo_readPsd b opts =
     (if b = [] then Inl (ErrorObj ''Invalid signature'')
      else if hd b = 0 then Inr flat_psd else Inr demo_psd)"

definition worker_env :: env where
  "worker_env = \<lparr>workerRef = True, worker_has_OffscreenCanvas = True, readPsd = demo_readPsd\<rparr>"

definition main_env :: env where
  "main_env = \<lparr>workerRef = False, worker_has_OffscreenCanvas = False, readPsd = demo_readPsd\<rparr>"

definition demo_file :: File where
  "demo_file = \<lparr>name = ''Logo.PSD'', arrayBuffer = Inr [56, 66, 80, 83]\<rparr>"

definition text_file :: File where
  "text_file = \<lparr>name = ''notes.psd.txt'', arrayBuffer = Inr [1, 2, 3]\<rparr>"

text \<open>
  The events of the interface that reach the decoded composite: a file is selected or
  dropped (and its decode, on either path, runs to completion), or an export is asked
  for.
\<close>

datatype event = Selected File | Download platform

definition step :: "env \<Rightarrow> event \<Rightarrow> app \<times> bitmaps \<Rightarrow> app \<times> bitmaps" where
  "step e ev w =
     (case ev of
        Selected f \<Rightarrow> load e f w
      | Download pf \<Rightarrow> (fst (onDownload pf (fst w)), snd w))"

definition run :: "env \<Rightarrow> event list \<Rightarrow> app \<times> bitmaps" where
  "run e evs = fold (step e) evs (initial_app, no_bitmaps)"

text \<open>
  The open bitmaps are exactly the one the state holds, and every open handle has been
  handed out.
\<close>

definition one_live :: "app \<times> bitmaps \<Rightarrow> bool" where
  "one_live w =
     (open_bitmaps (snd w) = held_bitmaps (fst w) \<and>
      (\<forall>b \<in> open_bitmaps (snd w). b < next_bitmap (snd w)))"

text \<open>Bitmap stores in which handle 3, the bitmap of the demo composite, is open.\<close>

definition two_bitmaps :: bitmaps where
  "two_bitmaps = \<lparr>next_bitmap = 5, open_bitmaps = {3, 4}\<rparr>"

definition one_bitmap :: bitmaps where
  "one_bitmap = \<lparr>next_bitmap = 4, open_bitmaps = {3}\<rparr>"

section \<open>Properties of the export handler\<close>

lemma onDownload_no_context:
  "parsed st = Some p \<Longrightarrow> \<not> getContext_ok pf \<Longrightarrow>
   onDownload pf st =
     (st\<lparr>error := Some ''Canvas 2D context is unavailable in this browser.''\<rparr>,
      canvas_setup (exportWidth p (scale st)) (exportHeight p (scale st)) (format st))"
  by (simp add: onDownload_def Let_def)

lemma onDownload_no_blob:
  "parsed st = Some p \<Longrightarrow> getContext_ok pf \<Longrightarrow>
   encode_result pf (format st) (jpgQuality st) = None \<Longrightarrow>
   onDownload pf st =
     (st\<lparr>error := Some ''Export failed (toBlob returned null).''\<rparr>,
      canvas_setup (exportWidth p (scale st)) (exportHeight p (scale st)) (format st)
        @ background_calls (format st) (jpgBackground st)
            (exportWidth p (scale st)) (exportHeight p (scale st))
        @ draw_calls (bitmap p) (scale st) (exportWidth p (scale st)) (exportHeight p (scale st))
        @ [encode_call (format st) (jpgQuality st)])"
  by (simp add: onDownload_def Let_def)

lemma onDownload_blob:
  "parsed st = Some p \<Longrightarrow> getContext_ok pf \<Longrightarrow>
   encode_result pf (format st) (jpgQuality st) = Some b \<Longrightarrow>
   onDownload pf st =
     (st,
      canvas_setup (exportWidth p (scale st)) (exportHeight p (scale st)) (format st)
        @ background_calls (format st) (jpgBackground st)
            (exportWidth p (scale st)) (exportHeight p (scale st))
        @ draw_calls (bitmap p) (scale st) (exportWidth p (scale st)) (exportHeight p (scale st))
        @ [encode_call (format st) (jpgQuality st)]
        @ anchor_calls pf b
            (download_name (fileName p) (exportWidth p (scale st)) (exportHeight p (scale st))
               (format st)))"
  by (simp add: onDownload_def Let_def)

lemma onDownload_prefix:
  "parsed st = Some p \<Longrightarrow>
   take 4 (snd (onDownload pf st)) =
     canvas_setup (exportWidth p (scale st)) (exportHeight p (scale st)) (format st)"
  by (simp add: onDownload_def Let_def canvas_setup_def split: option.splits)

lemma Math_round_round: "Math_round x = round x"
  by (simp add: Math_round_def round_def)

lemma round_half_even_of_int: "round_half_even (of_int m) = m"
  by (simp add: round_half_even_def)

lemma bitlen_lower: "0 < a \<Longrightarrow> (2::rat) powi (bitlen a - 1) \<le> of_int a"
proof -
  assume a: "0 < a"
  then have b: "1 \<le> bitlen a" by (auto simp: bitlen_alt_def)
  have "(2::int) ^ nat (bitlen a - 1) \<le> a" using bitlen_bounds [OF a] ..
  then have "(of_int ((2::int) ^ nat (bitlen a - 1)) :: rat) \<le> of_int a"
    by (simp only: of_int_le_iff)
  then have "(2::rat) ^ nat (bitlen a - 1) \<le> of_int a" by simp
  with b show ?thesis by (simp add: power_int_def)
qed

lemma bitlen_upper: "0 < q \<Longrightarrow> (of_int q :: rat) \<le> 2 powi (bitlen q)"
proof -
  assume q: "0 < q"
  then have b: "1 \<le> bitlen q" by (auto simp: bitlen_alt_def)
  have "q < (2::int) ^ nat (bitlen q)" using bitlen_bounds [OF q] ..
  then have "(of_int q :: rat) < of_int ((2::int) ^ nat (bitlen q))"
    by (simp only: of_int_less_iff)
  then have "(of_int q :: rat) \<le> 2 ^ nat (bitlen q)" by simp
  with b show ?thesis by (simp add: power_int_def)
qed

lemma binade_lower:
  assumes "x \<noteq> 0"
  shows "2 powi (binade x) \<le> \<bar>x\<bar>"
proof -
  obtain p q where pq: "quotient_of x = (p, q)" by (cases "quotient_of x") auto
  then have q: "0 < q" and x: "x = of_int p / of_int q"
    by (simp_all add: quotient_of_denom_pos quotient_of_div)
  from assms x have p: "0 < \<bar>p\<bar>" by auto
  let ?d = "bitlen \<bar>p\<bar> - bitlen q"
  have ax: "\<bar>x\<bar> = of_int \<bar>p\<bar> / of_int q"
    using q by (simp add: x abs_divide del: of_int_abs)
  have low: "(2::rat) powi (?d - 1) \<le> \<bar>x\<bar>"
  proof -
    have "(2::rat) powi (?d - 1) = 2 powi (bitlen \<bar>p\<bar> - 1) / 2 powi (bitlen q)"
      by (simp add: power_int_diff)
    also have "\<dots> \<le> of_int \<bar>p\<bar> / of_int q"
      using bitlen_lower [OF p] bitlen_upper [OF q] q
      by (intro frac_le) auto
    finally show ?thesis by (simp only: ax)
  qed
  show ?thesis
    using low by (simp add: binade_def pq Let_def)
qed


lemma to_double_on_grid:
  assumes "x / 2 powi (max (binade x) (- 1022) - 52) = of_int m"
  shows "to_double x = x"
proof (cases "x = 0")
  case True
  then show ?thesis by (simp add: to_double_def)
next
  case False
  let ?u = "(2::rat) powi (max (binade x) (- 1022) - 52)"
  have u: "?u \<noteq> 0" by simp
  have "to_double x = ?u * of_int (round_half_even (x / ?u))"
    using False by (simp add: to_double_def Let_def)
  also have "\<dots> = ?u * of_int m"
    by (simp only: assms round_half_even_of_int)
  also have "\<dots> = ?u * (x / ?u)"
    by (simp only: assms)
  also have "\<dots> = x"
    using u by simp
  finally show ?thesis .
qed

lemma binade_less:
  assumes "x \<noteq> 0" and "\<bar>x\<bar> < 2 powi k"
  shows "binade x < k"
proof (rule ccontr)
  assume "\<not> binade x < k"
  then have "k \<le> binade x" by simp
  then have "(2::rat) powi k \<le> 2 powi (binade x)"
    by (intro power_int_increasing) auto
  also have "\<dots> \<le> \<bar>x\<bar>" using assms(1) by (rule binade_lower)
  finally show False using assms(2) by simp
qed

lemma to_double_quarters:
  assumes "n < 2 ^ 53"
  shows "to_double (of_nat n / 4) = of_nat n / 4"
proof (cases "n = 0")
  case True
  then show ?thesis by (simp add: to_double_def)
next
  case False
  let ?x = "of_nat n / 4 :: rat"
  let ?k = "max (binade ?x) (- 1022) - 52"
  have x0: "?x \<noteq> 0" using False by simp
  have "(of_nat n :: rat) < of_nat (2 ^ 53)"
    using assms by (simp only: of_nat_less_iff)
  then have "\<bar>?x\<bar> < 2 powi 51" by simp
  then have "binade ?x < 51" using x0 by (intro binade_less)
  then have k: "?k \<le> - 2" by simp
  define j where "j = nat (- 2 - ?k)"
  with k have j: "?k = - 2 - int j" by simp
  have "(2::rat) powi ?k = 1 / (4 * 2 ^ j)"
    by (simp only: j) (simp add: power_int_diff power_int_minus field_simps)
  then have "?x / 2 powi ?k = of_int (int n * 2 ^ j)"
    by simp
  then show ?thesis by (rule to_double_on_grid)
qed

lemma to_double_of_nat:
  assumes "w < 2 ^ 32"
  shows "to_double (of_nat w) = of_nat w"
proof -
  have "4 * w < 4 * 2 ^ 32"
    using assms by simp
  also have "\<dots> \<le> (2::nat) ^ 53"
    by simp
  finally have "to_double (of_nat (4 * w) / 4) = of_nat (4 * w) / 4"
    by (rule to_double_quarters)
  then show ?thesis by simp
qed

lemma double_mul_quarters:
  assumes "w < 2 ^ 32" and "k \<le> 8"
  shows "double_mul (of_nat w) (of_nat k / 4) = of_nat w * (of_nat k / 4)"
proof -
  have "w * k \<le> w * 8"
    using assms(2) by simp
  also have "\<dots> < 2 ^ 32 * 8"
    using assms(1) by simp
  also have "\<dots> \<le> (2::nat) ^ 53"
    by simp
  finally have "w * k < 2 ^ 53" .
  then have p: "to_double (of_nat (w * k) / 4) = of_nat (w * k) / 4"
    by (rule to_double_quarters)
  have "k < 2 ^ 53"
    using assms(2) by (rule le_less_trans) simp
  then have s: "to_double (of_nat k / 4) = of_nat k / 4"
    by (rule to_double_quarters)
  show ?thesis
    using p by (simp add: double_mul_def to_double_of_nat [OF assms(1)] s)
qed

lemma slider_scales_quarters:
  assumes "s \<in> slider_scales"
  obtains k :: nat where "k \<le> 8" and "s = of_nat k / 4"
proof -
  from assms consider "s = of_nat 1 / 4" | "s = of_nat 2 / 4" | "s = of_nat 3 / 4"
    | "s = of_nat 4 / 4" | "s = of_nat 5 / 4" | "s = of_nat 6 / 4" | "s = of_nat 7 / 4"
    | "s = of_nat 8 / 4"
    by (auto simp: slider_scales_def)
  then show thesis
    by cases (rule that [rotated], assumption, simp)+
qed

lemma double_mul_slider:
  assumes "s \<in> slider_scales" and "w < 2 ^ 32"
  shows "double_mul (of_nat w) s = of_nat w * s"
proof -
  from assms(1) obtain k :: nat where "k \<le> 8" and "s = of_nat k / 4"
    by (rule slider_scales_quarters)
  then show ?thesis
    by (simp only: double_mul_quarters [OF assms(2)])
qed

lemma export_slider:
  assumes "s \<in> slider_scales"
  shows "width p < 2 ^ 32 \<Longrightarrow> exportWidth p s = max 1 (round (of_nat (width p) * s))"
    and "height p < 2 ^ 32 \<Longrightarrow> exportHeight p s = max 1 (round (of_nat (height p) * s))"
  by (simp_all add: exportWidth_def exportHeight_def Math_round_round
      double_mul_slider [OF assms])

lemma slider_half_one: "1 / 2 \<in> slider_scales" "1 \<in> slider_scales"
  by (simp_all add: slider_scales_def)

lemma demo_export_half:
  "exportWidth demo_composite (1 / 2) = 50" "exportHeight demo_composite (1 / 2) = 50"
  by (simp_all add: export_slider slider_half_one demo_composite_def)

lemma demo_export_one:
  "exportWidth demo_composite 1 = 100" "exportHeight demo_composite 1 = 100"
  by (simp_all add: export_slider slider_half_one demo_composite_def)

lemma narrow_scales:
  "to_double (3 / 10) = 5404319552844595 / 2 ^ 54"
  "to_double (7 / 10) = 3152519739159347 / 2 ^ 52"
  by code_simp+

lemma narrow_export:
  "exportWidth narrow_composite (to_double (3 / 10)) = 2"
  "exportHeight narrow_composite (to_double (3 / 10)) = 14"
  "exportWidth narrow_composite (to_double (7 / 10)) = 4"
  "exportHeight narrow_composite (to_double (7 / 10)) = 31"
  by code_simp+

text \<open>
  C10. With no decoded composite in the state, the export handler returns at once: the
  state is unchanged and no platform call is made (no element is created, no context is
  requested, nothing is encoded or downloaded, no error is set).
\<close>

theorem onDownload_without_composite:
  "parsed st = None \<Longrightarrow> onDownload pf st = (st, [])"
  by (simp add: onDownload_def)

theorem onDownload_without_composite_witness:
  "parsed initial_app = None \<and> onDownload demo_platform initial_app = (initial_app, [])"
  using onDownload_without_composite [of initial_app demo_platform]
  by (simp add: initial_app_def)

text \<open>
  C1. With a decoded composite of native size \<open>w \<times> h\<close> and scale \<open>s\<close>, the export
  creates its canvas with width \<open>max 1 (round (w s))\<close> and height
  \<open>max 1 (round (h s))\<close>, the product being the one the code computes on binary64
  numbers (for 32-bit dimensions and any scale small enough for the product to stay
  finite). For every scale the slider can produce and every 32-bit dimension that
  product is exact, so the canvas is \<open>max 1 (round (w s))\<close> by \<open>max 1 (round (h s))\<close> in
  exact arithmetic too. At scale 1 these are the native dimensions (a decoded composite
  has at least one pixel on each axis), and at scale one half a 100 by 100 composite
  gives 50 by 50.
\<close>

theorem export_dimensions:
  assumes "parsed st = Some p"
  shows "(\<bar>scale st\<bar> < 2 ^ 960 \<and> width p < 2 ^ 32 \<and> height p < 2 ^ 32 \<longrightarrow>
            take 3 (snd (onDownload pf st)) =
              [CreateElement ''canvas'',
               SetCanvasWidth (max 1 (round (double_mul (of_nat (width p)) (scale st)))),
               SetCanvasHeight (max 1 (round (double_mul (of_nat (height p)) (scale st))))])
         \<and> (scale st \<in> slider_scales \<and> width p < 2 ^ 32 \<and> height p < 2 ^ 32 \<longrightarrow>
              take 3 (snd (onDownload pf st)) =
                [CreateElement ''canvas'',
                 SetCanvasWidth (max 1 (round (of_nat (width p) * scale st))),
                 SetCanvasHeight (max 1 (round (of_nat (height p) * scale st)))])
         \<and> (scale st = 1 \<and> 0 < width p \<and> width p < 2 ^ 32 \<and>
              0 < height p \<and> height p < 2 ^ 32 \<longrightarrow>
              take 3 (snd (onDownload pf st)) =
                [CreateElement ''canvas'', SetCanvasWidth (int (width p)),
                 SetCanvasHeight (int (height p))])
         \<and> (scale st = 1 / 2 \<and> width p = 100 \<and> height p = 100 \<longrightarrow>
              take 3 (snd (onDownload pf st)) =
                [CreateElement ''canvas'', SetCanvasWidth 50, SetCanvasHeight 50])"
proof -
  have t: "take 3 (snd (onDownload pf st)) =
      take 3 (canvas_setup (exportWidth p (scale st)) (exportHeight p (scale st)) (format st))"
    using onDownload_prefix [OF assms, of pf, symmetric] by simp
  have a: "take 3 (snd (onDownload pf st)) =
           [CreateElement ''canvas'',
            SetCanvasWidth (max 1 (round (double_mul (of_nat (width p)) (scale st)))),
            SetCanvasHeight (max 1 (round (double_mul (of_nat (height p)) (scale st))))]"
    by (simp add: t canvas_setup_def exportWidth_def exportHeight_def Math_round_round)
  have e: "take 3 (snd (onDownload pf st)) =
             [CreateElement ''canvas'',
              SetCanvasWidth (max 1 (round (of_nat (width p) * scale st))),
              SetCanvasHeight (max 1 (round (of_nat (height p) * scale st)))]"
    if "scale st \<in> slider_scales" "width p < 2 ^ 32" "height p < 2 ^ 32"
    using that by (simp add: t canvas_setup_def export_slider)
  have b: "take 3 (snd (onDownload pf st)) =
             [CreateElement ''canvas'', SetCanvasWidth (int (width p)),
              SetCanvasHeight (int (height p))]"
    if s: "scale st = 1" and w: "0 < width p" "width p < 2 ^ 32"
      and h: "0 < height p" "height p < 2 ^ 32"
  proof -
    have "scale st \<in> slider_scales"
      by (simp add: s slider_half_one)
    from e [OF this w(2) h(2)] w(1) h(1) show ?thesis
      by (simp add: s)
  qed
  have c: "take 3 (snd (onDownload pf st)) =
             [CreateElement ''canvas'', SetCanvasWidth 50, SetCanvasHeight 50]"
    if s: "scale st = 1 / 2" and w: "width p = 100" and h: "height p = 100"
  proof -
    have "scale st \<in> slider_scales"
      by (simp add: s slider_half_one)
    moreover have "width p < 2 ^ 32" "height p < 2 ^ 32"
      by (simp_all add: w h)
    moreover have "round (100 * (1 / 2 :: rat)) = 50" by simp
    ultimately show ?thesis
      using e by (simp add: s w h)
  qed
  from a e b c show ?thesis by blast
qed

theorem export_dimensions_witness:
  "parsed demo_app = Some demo_composite
   \<and> scale demo_app \<in> slider_scales
   \<and> width demo_composite < 2 ^ 32 \<and> height demo_composite < 2 ^ 32
   \<and> take 3 (snd (onDownload demo_platform demo_app)) =
       [CreateElement ''canvas'', SetCanvasWidth 50, SetCanvasHeight 50]
   \<and> take 3 (snd (onDownload demo_platform (demo_app\<lparr>scale := 1\<rparr>))) =
       [CreateElement ''canvas'', SetCanvasWidth 100, SetCanvasHeight 100]
   \<and> take 3 (snd (onDownload demo_platform three_tenths_app)) =
       [CreateElement ''canvas'', SetCanvasWidth 2, SetCanvasHeight 14]
   \<and> take 3 (snd (onDownload demo_platform seven_tenths_app)) =
       [CreateElement ''canvas'', SetCanvasWidth 4, SetCanvasHeight 31]"
proof -
  have p: "parsed demo_app = Some demo_composite"
    and q: "parsed (demo_app\<lparr>scale := 1\<rparr>) = Some demo_composite"
    and r: "parsed three_tenths_app = Some narrow_composite"
    and s: "parsed seven_tenths_app = Some narrow_composite"
    by (simp_all add: demo_app_def three_tenths_app_def seven_tenths_app_def)
  have d: "scale demo_app = 1 / 2" "width demo_composite = 100" "height demo_composite = 100"
    by (simp_all add: demo_app_def demo_composite_def)
  have m: "scale demo_app \<in> slider_scales"
    "width demo_composite < 2 ^ 32" "height demo_composite < 2 ^ 32"
    by (simp_all add: d slider_half_one)
  have a: "take 3 (snd (onDownload demo_platform demo_app)) =
       [CreateElement ''canvas'', SetCanvasWidth 50, SetCanvasHeight 50]"
    using export_dimensions [OF p, of demo_platform] d by blast
  have o: "scale (demo_app\<lparr>scale := 1\<rparr>) = 1" "0 < width demo_composite"
    "0 < height demo_composite"
    by (simp_all add: d)
  have b: "take 3 (snd (onDownload demo_platform (demo_app\<lparr>scale := 1\<rparr>))) =
       [CreateElement ''canvas'', SetCanvasWidth (int (width demo_composite)),
        SetCanvasHeight (int (height demo_composite))]"
    using export_dimensions [OF q, of demo_platform] o m(2,3) by blast
  have n: "max 1 (Math_round (double_mul (of_nat (width narrow_composite)) x)) =
             exportWidth narrow_composite x"
    "max 1 (Math_round (double_mul (of_nat (height narrow_composite)) x)) =
             exportHeight narrow_composite x" for x
    by (simp_all add: exportWidth_def exportHeight_def)
  have z: "\<bar>scale three_tenths_app\<bar> < 2 ^ 960" "\<bar>scale seven_tenths_app\<bar> < 2 ^ 960"
    "width narrow_composite < 2 ^ 32" "height narrow_composite < 2 ^ 32"
    by (simp_all add: three_tenths_app_def seven_tenths_app_def narrow_composite_def
        narrow_scales)
  have c: "take 3 (snd (onDownload demo_platform three_tenths_app)) =
       [CreateElement ''canvas'',
        SetCanvasWidth (max 1 (round (double_mul (of_nat (width narrow_composite))
          (scale three_tenths_app)))),
        SetCanvasHeight (max 1 (round (double_mul (of_nat (height narrow_composite))
          (scale three_tenths_app))))]"
    using export_dimensions [OF r, of demo_platform] z by blast
  have e: "take 3 (snd (onDownload demo_platform seven_tenths_app)) =
       [CreateElement ''canvas'',
        SetCanvasWidth (max 1 (round (double_mul (of_nat (width narrow_composite))
          (scale seven_tenths_app)))),
        SetCanvasHeight (max 1 (round (double_mul (of_nat (height narrow_composite))
          (scale seven_tenths_app))))]"
    using export_dimensions [OF s, of demo_platform] z by blast
  have k: "scale three_tenths_app = to_double (3 / 10)"
    "scale seven_tenths_app = to_double (7 / 10)"
    by (simp_all add: three_tenths_app_def seven_tenths_app_def)
  from p m a b c e show ?thesis
    by (simp add: d k narrow_export n flip: Math_round_round)
qed

text \<open>
  C9. In an export that obtains its drawing context, image smoothing is set exactly
  once, before the bitmap is drawn, and it is set to enabled if and only if the scale
  differs from 1.
\<close>

theorem smoothing_iff_scaled:
  assumes "parsed st = Some p" and "getContext_ok pf"
  shows "filter is_smoothing_or_draw (snd (onDownload pf st)) =
           [SetImageSmoothingEnabled (scale st \<noteq> 1),
            DrawImage (bitmap p) 0 0 (exportWidth p (scale st)) (exportHeight p (scale st))]"
proof (cases "encode_result pf (format st) (jpgQuality st)")
  case None
  show ?thesis
    by (simp add: onDownload_no_blob [OF assms None] canvas_setup_def background_calls_def
        draw_calls_def encode_call_def)
next
  case (Some b)
  show ?thesis
    by (simp add: onDownload_blob [OF assms Some] canvas_setup_def background_calls_def
        draw_calls_def encode_call_def anchor_calls_def)
qed

theorem smoothing_iff_scaled_witness:
  "filter is_smoothing_or_draw (snd (onDownload demo_platform demo_app)) =
     [SetImageSmoothingEnabled True, DrawImage 3 0 0 50 50]
   \<and> filter is_smoothing_or_draw (snd (onDownload demo_platform (demo_app\<lparr>scale := 1\<rparr>))) =
     [SetImageSmoothingEnabled False, DrawImage 3 0 0 100 100]"
proof -
  have p: "parsed demo_app = Some demo_composite"
    and q: "parsed (demo_app\<lparr>scale := 1\<rparr>) = Some demo_composite"
    and g: "getContext_ok demo_platform"
    by (simp_all add: demo_app_def demo_platform_def)
  show ?thesis
    using smoothing_iff_scaled [OF p g] smoothing_iff_scaled [OF q g]
    by (simp add: demo_app_def demo_export_half demo_export_one)
      (simp add: demo_composite_def)
qed

text \<open>
  C6. When the drawing context cannot be obtained, or the encoder hands back no blob,
  the export sets the corresponding error message, changes no other part of the state
  (the decoded composite stays), and makes none of the calls of a download.
\<close>

theorem export_failure_reports_error:
  assumes "parsed st = Some p"
    and "\<not> getContext_ok pf \<or> encode_result pf (format st) (jpgQuality st) = None"
  shows "fst (onDownload pf st) =
           st\<lparr>error := Some (if getContext_ok pf
                              then ''Export failed (toBlob returned null).''
                              else ''Canvas 2D context is unavailable in this browser.'')\<rparr>
         \<and> filter is_download (snd (onDownload pf st)) = []
         \<and> parsed (fst (onDownload pf st)) = Some p"
proof (cases "getContext_ok pf")
  case False
  show ?thesis
    by (simp add: onDownload_no_context [OF assms(1) False] False canvas_setup_def assms(1))
next
  case True
  with assms(2) have n: "encode_result pf (format st) (jpgQuality st) = None" by simp
  show ?thesis
    by (simp add: onDownload_no_blob [OF assms(1) True n] True canvas_setup_def
        background_calls_def draw_calls_def encode_call_def assms(1))
qed

theorem export_failure_reports_error_witness:
  "fst (onDownload no_context_platform demo_app) =
     demo_app\<lparr>error := Some ''Canvas 2D context is unavailable in this browser.''\<rparr>
   \<and> filter is_download (snd (onDownload no_context_platform demo_app)) = []
   \<and> fst (onDownload null_blob_platform demo_app) =
     demo_app\<lparr>error := Some ''Export failed (toBlob returned null).''\<rparr>
   \<and> filter is_download (snd (onDownload null_blob_platform demo_app)) = []"
proof -
  have p: "parsed demo_app = Some demo_composite"
    by (simp add: demo_app_def)
  have a: "\<not> getContext_ok no_context_platform \<or>
           encode_result no_context_platform (format demo_app) (jpgQuality demo_app) = None"
    by (simp add: no_context_platform_def)
  have b: "\<not> getContext_ok null_blob_platform \<or>
           encode_result null_blob_platform (format demo_app) (jpgQuality demo_app) = None"
    by (simp add: null_blob_platform_def encode_result_def)
  have g: "\<not> getContext_ok no_context_platform" "getContext_ok null_blob_platform"
    by (simp_all add: no_context_platform_def null_blob_platform_def demo_platform_def)
  show ?thesis
    using export_failure_reports_error [OF p a] export_failure_reports_error [OF p b]
    by (simp add: g)
qed

lemma toUpperChar_ext:
  "toUpperChar CHR ''.'' = CHR ''.''"
  "toUpperChar CHR ''p'' = CHR ''P''" "toUpperChar CHR ''P'' = CHR ''P''"
  "toUpperChar CHR ''s'' = CHR ''S''" "toUpperChar CHR ''S'' = CHR ''S''"
  "toUpperChar CHR ''d'' = CHR ''D''" "toUpperChar CHR ''D'' = CHR ''D''"
  by (simp_all add: toUpperChar_def)

lemma is_psd_ext_matches:
  assumes "is_psd_ext e"
  shows "length e = 4 \<and> map toUpperChar e = map toUpperChar ''.psd''"
proof -
  from assms obtain c0 c1 c2 c3 where e: "e = [c0, c1, c2, c3]"
    by (auto elim: is_psd_ext.elims)
  with assms show ?thesis
    by (auto simp: toUpperChar_ext)
qed

lemma replace_psd_ext_append:
  assumes "is_psd_ext e"
  shows "replace_psd_ext (b @ e) = b"
  using is_psd_ext_matches [OF assms]
  by (simp add: replace_psd_ext_def matches_psd_at_end_def)

lemma download_names_append:
  "download_names (xs @ ys) = download_names xs @ download_names ys"
  by (induction xs rule: download_names.induct) simp_all

lemma encoder_args_append:
  "encoder_args (xs @ ys) = encoder_args xs @ encoder_args ys"
  by (induction xs rule: encoder_args.induct) simp_all

subsection \<open>Decimal numerals\<close>

lemma nat_digits_small: "n < 10 \<Longrightarrow> nat_digits n = [digit_char n]"
  by (simp add: nat_digits.simps)

lemma nat_digits_large:
  "\<not> n < 10 \<Longrightarrow> nat_digits n = nat_digits (n div 10) @ [digit_char (n mod 10)]"
  by (subst nat_digits.simps) simp

lemma below_ten: "d < 10 \<Longrightarrow> d \<in> {0, 1, 2, 3, 4, 5, 6, 7, 8, 9::nat}"
  by auto

lemma digit_value_digit_char: "d < 10 \<Longrightarrow> digit_value (digit_char d) = Some d"
  using below_ten [of d] by (auto simp: digit_value_def digit_char_def)

lemma digit_value_SomeD: "digit_value c = Some d \<Longrightarrow> d < 10 \<and> digit_char d = c"
  by (auto simp: digit_value_def digit_char_def split: if_splits)

lemma digit_char_zero: "d < 10 \<Longrightarrow> digit_char d = CHR ''0'' \<longleftrightarrow> d = 0"
  using below_ten [of d] by (auto simp: digit_char_def)

lemma read_digits_snoc:
  "read_digits a (xs @ [c]) =
     (case read_digits a xs of
        None \<Rightarrow> None
      | Some v \<Rightarrow> (case digit_value c of None \<Rightarrow> None | Some d \<Rightarrow> Some (10 * v + d)))"
  by (induction xs arbitrary: a) (simp_all split: option.splits)

lemma read_digits_ge: "read_digits a xs = Some m \<Longrightarrow> a \<le> m"
proof (induction xs arbitrary: a)
  case Nil
  then show ?case by simp
next
  case (Cons c cs)
  then obtain d where "read_digits (10 * a + d) cs = Some m"
    by (auto split: option.splits)
  from Cons.IH [OF this] show ?case by simp
qed

lemma read_digits_nat_digits: "read_digits 0 (nat_digits n) = Some n"
proof (induction n rule: nat_digits.induct)
  case (1 n)
  show ?case
  proof (cases "n < 10")
    case True
    then show ?thesis by (simp add: nat_digits_small digit_value_digit_char)
  next
    case False
    with 1 have "read_digits 0 (nat_digits (n div 10)) = Some (n div 10)" by simp
    with False show ?thesis
      by (simp add: nat_digits_large read_digits_snoc digit_value_digit_char)
  qed
qed

lemma nat_digits_nonempty: "nat_digits n \<noteq> []"
  by (cases "n < 10") (simp_all add: nat_digits_small nat_digits_large)

lemma hd_nat_digits: "0 < n \<Longrightarrow> hd (nat_digits n) \<noteq> CHR ''0''"
proof (induction n rule: nat_digits.induct)
  case (1 n)
  show ?case
  proof (cases "n < 10")
    case True
    with 1(2) show ?thesis by (simp add: nat_digits_small digit_char_zero)
  next
    case False
    then have "0 < n div 10" by simp
    with 1(1) False have "hd (nat_digits (n div 10)) \<noteq> CHR ''0''" by simp
    with False show ?thesis
      by (simp add: nat_digits_large nat_digits_nonempty)
  qed
qed

lemma length_nat_digits_small: "n < 10 \<Longrightarrow> length (nat_digits n) = 1"
  by (simp add: nat_digits_small)

lemma read_decimal_nat_digits: "read_decimal (nat_digits n) = Some n"
proof (cases "n = 0")
  case True
  then show ?thesis
    by (simp add: read_decimal_def nat_digits_small digit_char_def digit_value_def)
next
  case False
  then have "hd (nat_digits n) \<noteq> CHR ''0''" by (simp add: hd_nat_digits)
  then show ?thesis
    by (simp add: read_decimal_def nat_digits_nonempty read_digits_nat_digits)
qed

lemma read_digits_canonical:
  "xs \<noteq> [] \<Longrightarrow> (1 < length xs \<longrightarrow> hd xs \<noteq> CHR ''0'') \<Longrightarrow> read_digits 0 xs = Some n \<Longrightarrow>
   xs = nat_digits n"
proof (induction xs arbitrary: n rule: rev_induct)
  case Nil
  then show ?case by simp
next
  case (snoc c xs)
  from snoc.prems(3) obtain v d where v: "read_digits 0 xs = Some v"
    and d: "digit_value c = Some d" and n: "n = 10 * v + d"
    by (auto simp: read_digits_snoc split: option.splits)
  from d have d10: "d < 10" and dc: "digit_char d = c"
    by (simp_all add: digit_value_SomeD)
  show ?case
  proof (cases "xs = []")
    case True
    with v have "v = 0" by simp
    with n d10 dc True show ?thesis by (simp add: nat_digits_small)
  next
    case False
    with snoc.prems(2) have h: "hd xs \<noteq> CHR ''0''" by simp
    from False h v have xs: "xs = nat_digits v"
      by (intro snoc.IH) auto
    from False obtain c0 cs where c0: "xs = c0 # cs" by (cases xs) auto
    with v obtain d0 where d0: "digit_value c0 = Some d0"
      and r: "read_digits d0 cs = Some v"
      by (auto split: option.splits)
    have "d0 \<noteq> 0"
    proof
      assume "d0 = 0"
      with digit_value_SomeD [OF d0] have "c0 = CHR ''0''" by (simp add: digit_char_def)
      with h c0 show False by simp
    qed
    with read_digits_ge [OF r] have "0 < v" by simp
    with n d10 have "\<not> n < 10" "n div 10 = v" "n mod 10 = d" by simp_all
    then show ?thesis
      using xs dc by (simp add: nat_digits_large)
  qed
qed

lemma read_decimal_iff: "read_decimal s = Some n \<longleftrightarrow> s = nat_digits n"
proof
  assume "read_decimal s = Some n"
  then show "s = nat_digits n"
    by (auto simp: read_decimal_def intro: read_digits_canonical split: if_splits)
next
  assume "s = nat_digits n"
  then show "read_decimal s = Some n" by (simp add: read_decimal_nat_digits)
qed

lemma Number_toString_decimal:
  "0 \<le> i \<Longrightarrow> read_decimal s = Some (nat i) \<longleftrightarrow> s = Number_toString i"
  by (simp add: read_decimal_iff Number_toString_def)

lemma Number_toString_50: "Number_toString 50 = ''50''"
  by (simp add: Number_toString_def nat_digits_small nat_digits_large digit_char_def)

lemma export_at_least_one: "1 \<le> exportWidth p s" "1 \<le> exportHeight p s"
  by (simp_all add: exportWidth_def exportHeight_def)

subsection \<open>The name of the download\<close>

text \<open>
  C7. A successful export names the download \<open>base-WxH.ext\<close>: \<open>base\<close> is the file
  name without its trailing extension (dot, p, s, d in either case); \<open>W\<close> and \<open>H\<close> stand
  for the decimal numerals of the export width and height, that is, the only strings
  that read back as these two positive integers; \<open>ext\<close> is \<open>png\<close> or \<open>jpg\<close> after the
  format. The encoder is called once, with the quality for JPEG and without one for
  PNG.
\<close>

theorem download_file_name:
  assumes "parsed st = Some p" and "getContext_ok pf"
    and "encode_result pf (format st) (jpgQuality st) = Some b"
    and "fileName p = base @ ext" and "is_psd_ext ext"
  shows "download_names (snd (onDownload pf st)) =
           [base @ ''-'' @ Number_toString (exportWidth p (scale st)) @ ''x''
              @ Number_toString (exportHeight p (scale st)) @ ''.''
              @ (case format st of PNG \<Rightarrow> ''png'' | JPG \<Rightarrow> ''jpg'')]
         \<and> 1 \<le> exportWidth p (scale st) \<and> 1 \<le> exportHeight p (scale st)
         \<and> (\<forall>s. read_decimal s = Some (nat (exportWidth p (scale st))) \<longleftrightarrow>
                  s = Number_toString (exportWidth p (scale st)))
         \<and> (\<forall>s. read_decimal s = Some (nat (exportHeight p (scale st))) \<longleftrightarrow>
                  s = Number_toString (exportHeight p (scale st)))
         \<and> Click \<in> set (snd (onDownload pf st))
         \<and> encoder_args (snd (onDownload pf st)) =
             [case format st of PNG \<Rightarrow> (''image/png'', None)
              | JPG \<Rightarrow> (''image/jpeg'', Some (jpgQuality st))]"
proof -
  have n: "download_name (fileName p) w h (format st) =
        base @ ''-'' @ Number_toString w @ ''x'' @ Number_toString h @ ''.''
          @ (case format st of PNG \<Rightarrow> ''png'' | JPG \<Rightarrow> ''jpg'')" for w h
    by (simp add: download_name_def assms(4) replace_psd_ext_append [OF assms(5)]
        format_string_def)
  have t: "download_names (snd (onDownload pf st)) =
           [base @ ''-'' @ Number_toString (exportWidth p (scale st)) @ ''x''
              @ Number_toString (exportHeight p (scale st)) @ ''.''
              @ (case format st of PNG \<Rightarrow> ''png'' | JPG \<Rightarrow> ''jpg'')]
         \<and> Click \<in> set (snd (onDownload pf st))
         \<and> encoder_args (snd (onDownload pf st)) =
             [case format st of PNG \<Rightarrow> (''image/png'', None)
              | JPG \<Rightarrow> (''image/jpeg'', Some (jpgQuality st))]"
    unfolding onDownload_blob [OF assms(1,2,3)] n
    by (cases "format st")
      (simp_all add: download_names_append encoder_args_append canvas_setup_def
        background_calls_def draw_calls_def encode_call_def anchor_calls_def)
  have w: "0 \<le> exportWidth p (scale st)" "0 \<le> exportHeight p (scale st)"
    using export_at_least_one [of p "scale st"] by simp_all
  have d: "\<forall>s. read_decimal s = Some (nat (exportWidth p (scale st))) \<longleftrightarrow>
                  s = Number_toString (exportWidth p (scale st))"
    "\<forall>s. read_decimal s = Some (nat (exportHeight p (scale st))) \<longleftrightarrow>
                  s = Number_toString (exportHeight p (scale st))"
    using w by (simp_all only: Number_toString_decimal simp_thms)
  from t d export_at_least_one [of p "scale st"] show ?thesis
    by blast
qed

theorem download_file_name_witness:
  "download_names (snd (onDownload demo_platform demo_app)) = [''Logo-50x50.png'']
   \<and> read_decimal ''50'' = Some 50
   \<and> encoder_args (snd (onDownload demo_platform demo_app)) = [(''image/png'', None)]
   \<and> download_names (snd (onDownload demo_platform (demo_app\<lparr>format := JPG\<rparr>))) =
       [''Logo-50x50.jpg'']
   \<and> encoder_args (snd (onDownload demo_platform (demo_app\<lparr>format := JPG\<rparr>))) =
       [(''image/jpeg'', Some (9 / 10))]
   \<and> download_names (snd (onDownload demo_platform three_tenths_app)) = [''n-2x14.png'']"
proof -
  have p: "parsed demo_app = Some demo_composite"
    and q: "parsed (demo_app\<lparr>format := JPG\<rparr>) = Some demo_composite"
    and g: "getContext_ok demo_platform"
    by (simp_all add: demo_app_def demo_platform_def)
  have e: "encode_result demo_platform (format demo_app) (jpgQuality demo_app) = Some 7"
    and f: "encode_result demo_platform (format (demo_app\<lparr>format := JPG\<rparr>))
              (jpgQuality (demo_app\<lparr>format := JPG\<rparr>)) = Some 7"
    by (simp_all add: encode_result_def demo_platform_def)
  have n: "fileName demo_composite = ''Logo'' @ ''.PSD''"
    by (simp add: demo_composite_def)
  have x: "is_psd_ext ''.PSD''"
    by simp
  have s: "scale demo_app = 1 / 2" "format demo_app = PNG" "jpgQuality demo_app = 9 / 10"
    by (simp_all add: demo_app_def initial_app_def)
  have a: "download_names (snd (onDownload demo_platform demo_app)) = [''Logo-50x50.png'']
     \<and> read_decimal ''50'' = Some 50
     \<and> encoder_args (snd (onDownload demo_platform demo_app)) = [(''image/png'', None)]"
    using download_file_name [OF p g e n x]
    by (simp add: s demo_export_half Number_toString_50)
  have b: "download_names (snd (onDownload demo_platform (demo_app\<lparr>format := JPG\<rparr>))) =
       [''Logo-50x50.jpg'']
     \<and> encoder_args (snd (onDownload demo_platform (demo_app\<lparr>format := JPG\<rparr>))) =
       [(''image/jpeg'', Some (9 / 10))]"
    using download_file_name [OF q g f n x]
    by (simp add: s demo_export_half Number_toString_50)
  let ?t = "three_tenths_app"
  have r: "parsed ?t = Some narrow_composite"
    by (simp add: three_tenths_app_def)
  have h: "encode_result demo_platform (format ?t) (jpgQuality ?t) = Some 7"
    by (simp add: encode_result_def demo_platform_def)
  have m: "fileName narrow_composite = ''n'' @ ''.psd''"
    by (simp add: narrow_composite_def)
  have y: "is_psd_ext ''.psd''"
    by simp
  have k: "scale ?t = to_double (3 / 10)" "format ?t = PNG"
    by (simp_all add: three_tenths_app_def initial_app_def)
  have v: "Number_toString 2 = ''2''" "Number_toString 14 = ''14''"
    by (simp_all add: Number_toString_def nat_digits_small nat_digits_large digit_char_def)
  have c: "download_names (snd (onDownload demo_platform ?t)) = [''n-2x14.png'']"
    using download_file_name [OF r g h m y]
    by (simp add: k narrow_export v)
  from a b c show ?thesis by simp
qed

lemma onDownload_paint:
  assumes "parsed st = Some p" and "getContext_ok pf"
  shows "filter is_paint (snd (onDownload pf st)) =
           filter is_paint (background_calls (format st) (jpgBackground st)
              (exportWidth p (scale st)) (exportHeight p (scale st)))
           @ [DrawImage (bitmap p) 0 0 (exportWidth p (scale st)) (exportHeight p (scale st))]"
proof (cases "encode_result pf (format st) (jpgQuality st)")
  case None
  show ?thesis
    by (simp add: onDownload_no_blob [OF assms None] canvas_setup_def
        draw_calls_def encode_call_def)
next
  case (Some b)
  show ?thesis
    by (simp add: onDownload_blob [OF assms Some] canvas_setup_def
        draw_calls_def encode_call_def anchor_calls_def)
qed

lemma paint_not_is_paint: "\<not> is_paint c \<Longrightarrow> paint sa src c x = x"
  by (cases c) simp_all

lemma fold_paint_filter:
  "fold (paint sa src) cs x = fold (paint sa src) (filter is_paint cs) x"
  by (induction cs arbitrary: x) (simp_all add: paint_not_is_paint)

lemma surface_alpha_filter:
  "surface_alpha sa src cs = surface_alpha sa src (filter is_paint cs)"
  unfolding surface_alpha_def by (subst fold_paint_filter) (rule refl)

lemma surface_alpha_jpg:
  assumes "sa bg = 1" and "0 \<le> px" "px < w" "0 \<le> py" "py < h"
  shows "surface_alpha sa src [SetFillStyle bg, FillRect 0 0 w h, DrawImage b 0 0 w h] px py = 1"
  using assms by (simp add: surface_alpha_def fresh_ctx_def in_rect_def source_over_def)

lemma surface_alpha_png:
  assumes "0 \<le> px" "px < w" "0 \<le> py" "py < h"
  shows "surface_alpha sa src [ClearRect 0 0 w h, DrawImage b 0 0 w h] px py = src px py"
  using assms by (simp add: surface_alpha_def fresh_ctx_def in_rect_def source_over_def)

text \<open>
  C2. In an export that obtains its drawing context: for JPEG the only painting calls are
  the fill of the whole surface with the configured background followed by the drawing
  of the bitmap, so that every pixel of the surface is opaque whenever the configured
  colour is; for PNG the surface is cleared, nothing is filled, and after the drawing
  each pixel has exactly the opacity of the bitmap there.
\<close>

theorem background_by_format:
  assumes "parsed st = Some p" and "getContext_ok pf"
  shows "(format st = JPG \<longrightarrow>
            filter is_paint (snd (onDownload pf st)) =
              [SetFillStyle (jpgBackground st),
               FillRect 0 0 (exportWidth p (scale st)) (exportHeight p (scale st)),
               DrawImage (bitmap p) 0 0 (exportWidth p (scale st)) (exportHeight p (scale st))]
            \<and> (\<forall>px py. sa (jpgBackground st) = 1 \<and>
                  0 \<le> px \<and> px < exportWidth p (scale st) \<and>
                  0 \<le> py \<and> py < exportHeight p (scale st) \<longrightarrow>
                  surface_alpha sa src (snd (onDownload pf st)) px py = 1))
       \<and> (format st = PNG \<longrightarrow>
            filter is_paint (snd (onDownload pf st)) =
              [ClearRect 0 0 (exportWidth p (scale st)) (exportHeight p (scale st)),
               DrawImage (bitmap p) 0 0 (exportWidth p (scale st)) (exportHeight p (scale st))]
            \<and> filter is_fill (snd (onDownload pf st)) = []
            \<and> (\<forall>px py. 0 \<le> px \<and> px < exportWidth p (scale st) \<and>
                  0 \<le> py \<and> py < exportHeight p (scale st) \<longrightarrow>
                  surface_alpha sa src (snd (onDownload pf st)) px py = src px py))"
proof (cases "format st")
  case JPG
  have t: "filter is_paint (snd (onDownload pf st)) =
              [SetFillStyle (jpgBackground st),
               FillRect 0 0 (exportWidth p (scale st)) (exportHeight p (scale st)),
               DrawImage (bitmap p) 0 0 (exportWidth p (scale st)) (exportHeight p (scale st))]"
    by (simp add: onDownload_paint [OF assms] background_calls_def JPG)
  have "surface_alpha sa src (snd (onDownload pf st)) px py = 1"
    if "sa (jpgBackground st) = 1" "0 \<le> px" "px < exportWidth p (scale st)"
       "0 \<le> py" "py < exportHeight p (scale st)" for px py
    using that by (subst surface_alpha_filter, subst t) (simp add: surface_alpha_jpg)
  with t JPG show ?thesis by simp
next
  case PNG
  have t: "filter is_paint (snd (onDownload pf st)) =
              [ClearRect 0 0 (exportWidth p (scale st)) (exportHeight p (scale st)),
               DrawImage (bitmap p) 0 0 (exportWidth p (scale st)) (exportHeight p (scale st))]"
    by (simp add: onDownload_paint [OF assms] background_calls_def PNG)
  have "filter is_fill (filter is_paint (snd (onDownload pf st))) = []"
    by (simp add: t)
  moreover have "filter is_fill (filter is_paint cs) = filter is_fill cs" for cs
  proof (induction cs)
    case Nil
    show ?case by simp
  next
    case (Cons c cs)
    then show ?case by (cases c) simp_all
  qed
  ultimately have f: "filter is_fill (snd (onDownload pf st)) = []" by simp
  have "surface_alpha sa src (snd (onDownload pf st)) px py = src px py"
    if "0 \<le> px" "px < exportWidth p (scale st)"
       "0 \<le> py" "py < exportHeight p (scale st)" for px py
    using that by (subst surface_alpha_filter, subst t) (simp add: surface_alpha_png)
  with t f PNG show ?thesis by simp
qed

theorem background_by_format_witness:
  "filter is_paint (snd (onDownload demo_platform demo_jpg_app)) =
     [SetFillStyle ''#ffffff'', FillRect 0 0 50 50, DrawImage 3 0 0 50 50]
   \<and> surface_alpha (\<lambda>s. 1) (\<lambda>x y. 0) (snd (onDownload demo_platform demo_jpg_app)) 10 49 = 1
   \<and> filter is_paint (snd (onDownload demo_platform demo_app)) =
     [ClearRect 0 0 50 50, DrawImage 3 0 0 50 50]
   \<and> filter is_fill (snd (onDownload demo_platform demo_app)) = []
   \<and> surface_alpha (\<lambda>s. 1) (\<lambda>x y. 0) (snd (onDownload demo_platform demo_app)) 10 49 = 0"
proof -
  have p: "parsed demo_app = Some demo_composite"
    and q: "parsed demo_jpg_app = Some demo_composite"
    and g: "getContext_ok demo_platform"
    by (simp_all add: demo_jpg_app_def demo_app_def demo_platform_def)
  have s: "scale demo_app = 1 / 2" "format demo_app = PNG"
    "scale demo_jpg_app = 1 / 2" "format demo_jpg_app = JPG"
    "jpgBackground demo_jpg_app = ''#ffffff''" "bitmap demo_composite = 3"
    by (simp_all add: demo_jpg_app_def demo_app_def initial_app_def demo_composite_def)
  show ?thesis
    using background_by_format [OF q g, of "\<lambda>s. 1" "\<lambda>x y. 0"]
      background_by_format [OF p g, of "\<lambda>s. 1" "\<lambda>x y. 0"]
    by (simp add: s demo_export_half)
qed

section \<open>Properties of the parse dispatcher\<close>

subsection \<open>The extension check\<close>

lemma toLowerChar_dot: "toLowerChar c = CHR ''.'' \<longleftrightarrow> c = CHR ''.''"
  by (simp add: toLowerChar_def)

lemma toLowerChar_p: "toLowerChar c = CHR ''p'' \<longleftrightarrow> c = CHR ''p'' \<or> c = CHR ''P''"
  by (simp add: toLowerChar_def)

lemma toLowerChar_s: "toLowerChar c = CHR ''s'' \<longleftrightarrow> c = CHR ''s'' \<or> c = CHR ''S''"
  by (simp add: toLowerChar_def)

lemma toLowerChar_d: "toLowerChar c = CHR ''d'' \<longleftrightarrow> c = CHR ''d'' \<or> c = CHR ''D''"
  by (simp add: toLowerChar_def)

lemma is_psd_ext_lower: "is_psd_ext e \<longleftrightarrow> map toLowerChar e = ''.psd''"
proof (cases "length e = 4")
  case True
  then obtain c0 c1 c2 c3 where "e = [c0, c1, c2, c3]"
    by (auto simp: length_Suc_conv eval_nat_numeral)
  then show ?thesis
    by (simp add: toLowerChar_dot toLowerChar_p toLowerChar_s toLowerChar_d)
next
  case False
  then have "\<not> is_psd_ext e"
    using is_psd_ext_matches by blast
  moreover have "map toLowerChar e \<noteq> ''.psd''"
  proof
    assume "map toLowerChar e = ''.psd''"
    then have "length (map toLowerChar e) = length ''.psd''"
      by (rule arg_cong)
    with False show False by simp
  qed
  ultimately show ?thesis by simp
qed

lemma endsWith_psd_iff: "endsWith (toLowerCase s) ''.psd'' \<longleftrightarrow> ends_with_psd_ci s"
proof (cases "4 \<le> length s")
  case True
  then show ?thesis
    by (simp add: endsWith_def toLowerCase_def ends_with_psd_ci_def is_psd_ext_lower drop_map
        eval_nat_numeral)
next
  case False
  then have "length (drop (length s - 4) s) \<noteq> 4" by simp
  then have "\<not> is_psd_ext (drop (length s - 4) s)"
    using is_psd_ext_matches by blast
  with False show ?thesis
    by (simp add: endsWith_def toLowerCase_def ends_with_psd_ci_def)
qed

lemma ends_with_psd_ci_append: "is_psd_ext e \<Longrightarrow> ends_with_psd_ci (b @ e)"
  using is_psd_ext_matches [of e] by (simp add: ends_with_psd_ci_def)


lemma handleFile_rejects:
  "\<not> ends_with_psd_ci (name f) \<Longrightarrow>
   handleFile e f st h =
     (st\<lparr>error := Some ''Please select a .psd file.'', isParsing := False\<rparr>, h, [])"
  by (simp add: handleFile_def endsWith_psd_iff catch_error_def thrown_message_def)

lemma handleFile_posts:
  "ends_with_psd_ci (name f) \<Longrightarrow> workerRef e \<Longrightarrow> arrayBuffer f = Inr buf \<Longrightarrow>
   handleFile e f st h =
     (st\<lparr>error := None, isParsing := True\<rparr>, h, [PostMessage (Parse (name f) buf)])"
  by (simp add: handleFile_def endsWith_psd_iff)

lemma parseInMainThread_decoder_calls:
  "arrayBuffer f = Inr buf \<Longrightarrow>
   decoder_calls (snd (snd (snd (parseInMainThread e f st h)))) = [(buf, main_thread_options)]"
  by (simp add: parseInMainThread_def split: sum.splits option.splits prod.splits)

lemma parseInMainThread_unreadable:
  "arrayBuffer f = Inl t \<Longrightarrow> parseInMainThread e f st h = (Some t, st, h, [])"
  by (simp add: parseInMainThread_def)

lemma handleFile_main_calls:
  "ends_with_psd_ci (name f) \<Longrightarrow> \<not> workerRef e \<Longrightarrow>
   snd (snd (handleFile e f st h)) =
     snd (snd (snd (parseInMainThread e f (st\<lparr>error := None, isParsing := True\<rparr>) h)))"
  by (simp add: handleFile_def endsWith_psd_iff split: prod.splits option.splits)

lemma self_onmessage_decoder_calls:
  "worker_has_OffscreenCanvas e \<Longrightarrow>
   decoder_calls (snd (self_onmessage e (Parse fname buf) h)) = [(buf, worker_options)]"
  by (simp add: self_onmessage_def split: sum.splits option.splits prod.splits)

lemma self_onmessage_replies_once:
  "length (replies (snd (self_onmessage e (Parse fname buf) h))) = 1"
  by (simp add: self_onmessage_def split: sum.splits option.splits prod.splits)

subsection \<open>Bitmaps held and bitmaps open\<close>

lemma worker_onmessage_parsed:
  "worker_onmessage (ParsedMsg fname w ht b) st h =
     (st\<lparr>isParsing := False, error := None,
         parsed := Some \<lparr>fileName = fname, width = w, height = ht, bitmap = b,
                          usedWorker = True\<rparr>\<rparr>,
      case parsed st of None \<Rightarrow> h | Some prev \<Rightarrow> close_bitmap (bitmap prev) h)"
  by (simp add: worker_onmessage_def setParsed_def)

lemma one_live_initial: "one_live (initial_app, no_bitmaps)"
  by (simp add: one_live_def initial_app_def no_bitmaps_def held_bitmaps_def)

lemma one_live_receive_error: "one_live w \<Longrightarrow> one_live (receive (ErrorMsg m) w)"
  by (simp add: one_live_def receive_def worker_onmessage_def held_bitmaps_def)

lemma one_live_serve:
  assumes "one_live w"
  shows "one_live (serve e r w)"
proof (cases r)
  case OtherRequest
  with assms show ?thesis by (simp add: serve_def self_onmessage_def)
next
  case (Parse fname buf)
  have err: "one_live (fold receive [ErrorMsg m] (fst w, snd w))" for m
    using one_live_receive_error [OF assms, of m] by simp
  have ok: "one_live (fold receive [ParsedMsg fname a b (next_bitmap (snd w))]
              (fst w, snd (new_bitmap (snd w))))" for a b
    using assms
    by (auto simp: one_live_def receive_def worker_onmessage_parsed new_bitmap_def
        close_bitmap_def held_bitmaps_def split: option.splits)
  show ?thesis
    unfolding serve_def self_onmessage_def Parse
    using err ok
    by (simp add: no_composite_reply_def new_bitmap_def split: sum.splits option.splits)
qed

lemma one_live_fold_serve: "one_live w \<Longrightarrow> one_live (fold (serve e) rs w)"
  by (induction rs arbitrary: w) (simp_all add: one_live_serve)

lemma one_live_parseInMainThread:
  assumes "one_live (st, h)"
  shows "one_live (fst (snd (parseInMainThread e f st h)),
                   fst (snd (snd (parseInMainThread e f st h))))"
  using assms
  by (auto simp: parseInMainThread_def one_live_def setParsed_def new_bitmap_def
      close_bitmap_def held_bitmaps_def split: sum.splits option.splits)


lemma one_live_cells:
  "one_live (st, h) \<Longrightarrow> one_live (st\<lparr>error := x, isParsing := y\<rparr>, h)"
  "one_live (st, h) \<Longrightarrow> one_live (st\<lparr>isParsing := y\<rparr>, h)"
  "one_live (st, h) \<Longrightarrow> one_live (st\<lparr>error := x\<rparr>, h)"
  "one_live (st, h) \<Longrightarrow> one_live (catch_error t st, h)"
  by (simp_all add: one_live_def held_bitmaps_def catch_error_def)

lemma one_live_handleFile:
  assumes "one_live (st, h)"
  shows "one_live (fst (handleFile e f st h), fst (snd (handleFile e f st h)))"
proof -
  let ?st1 = "st\<lparr>error := None, isParsing := True\<rparr>"
  have a: "one_live (?st1, h)"
    using assms by (rule one_live_cells)
  obtain t st2 h2 cs where p: "parseInMainThread e f ?st1 h = (t, st2, h2, cs)"
    by (cases "parseInMainThread e f ?st1 h") auto
  have b: "one_live (st2, h2)"
    using one_live_parseInMainThread [OF a, of e f] by (simp add: p)
  show ?thesis
    using a b
    by (auto simp: handleFile_def Let_def p one_live_cells split: sum.splits option.splits)
qed

lemma one_live_load:
  assumes "one_live w"
  shows "one_live (load e f w)"
proof -
  obtain st' h' cs where r: "handleFile e f (fst w) (snd w) = (st', h', cs)"
    by (cases "handleFile e f (fst w) (snd w)") auto
  have "one_live (st', h')"
    using one_live_handleFile [of "fst w" "snd w" e f] assms by (simp add: r)
  then show ?thesis
    by (simp add: load_def r one_live_fold_serve)
qed

lemma one_live_onDownload: "one_live (st, h) \<Longrightarrow> one_live (fst (onDownload pf st), h)"
  by (auto simp: onDownload_def Let_def one_live_def held_bitmaps_def split: option.splits)

lemma one_live_step: "one_live w \<Longrightarrow> one_live (step e ev w)"
  using one_live_onDownload [of "fst w" "snd w"]
  by (cases ev) (simp_all add: step_def one_live_load)

lemma one_live_fold_step: "one_live w \<Longrightarrow> one_live (fold (step e) evs w)"
  by (induction evs arbitrary: w) (simp_all add: one_live_step)

lemma one_live_run: "one_live (run e evs)"
  unfolding run_def by (rule one_live_fold_step) (rule one_live_initial)

lemma held_bitmaps_card: "card (held_bitmaps st) \<le> 1"
  by (simp add: held_bitmaps_def split: option.splits)

text \<open>
  C3. Installing a decode result while a composite is held closes the held bitmap, on
  the worker path (\<^verbatim>\<open>worker.onmessage\<close>) and on the main-thread path
  (\<^verbatim>\<open>parseInMainThread\<close>) alike, and the new composite replaces the old one.
  Consequently, after any sequence of file selections and exports from the initial
  state, the open bitmaps are exactly the bitmap of the composite the state holds: at
  most one, whatever the number of loads.
\<close>

theorem previous_bitmap_released:
  "(parsed st = Some prev \<longrightarrow>
      parsed (fst (worker_onmessage (ParsedMsg fname w ht b) st h)) =
        Some \<lparr>fileName = fname, width = w, height = ht, bitmap = b, usedWorker = True\<rparr>
      \<and> open_bitmaps (snd (worker_onmessage (ParsedMsg fname w ht b) st h)) =
          open_bitmaps h - {bitmap prev})
   \<and> (parsed st = Some prev \<and> parseInMainThread e f st h = (None, st', h', cs) \<longrightarrow>
        map_option bitmap (parsed st') = Some (next_bitmap h)
      \<and> map_option fileName (parsed st') = Some (name f)
      \<and> map_option usedWorker (parsed st') = Some False
      \<and> open_bitmaps h' = insert (next_bitmap h) (open_bitmaps h) - {bitmap prev})
   \<and> open_bitmaps (snd (run e evs)) = held_bitmaps (fst (run e evs))
   \<and> card (open_bitmaps (snd (run e evs))) \<le> 1"
proof -
  have a: "parsed (fst (worker_onmessage (ParsedMsg fname w ht b) st h)) =
        Some \<lparr>fileName = fname, width = w, height = ht, bitmap = b, usedWorker = True\<rparr>
      \<and> open_bitmaps (snd (worker_onmessage (ParsedMsg fname w ht b) st h)) =
          open_bitmaps h - {bitmap prev}"
    if "parsed st = Some prev"
    using that by (simp add: worker_onmessage_parsed close_bitmap_def)
  have b: "map_option bitmap (parsed st') = Some (next_bitmap h)
      \<and> map_option fileName (parsed st') = Some (name f)
      \<and> map_option usedWorker (parsed st') = Some False
      \<and> open_bitmaps h' = insert (next_bitmap h) (open_bitmaps h) - {bitmap prev}"
    if "parsed st = Some prev" "parseInMainThread e f st h = (None, st', h', cs)"
    using that
    by (auto simp: parseInMainThread_def setParsed_def new_bitmap_def close_bitmap_def
        split: sum.splits option.splits)
  have c: "open_bitmaps (snd (run e evs)) = held_bitmaps (fst (run e evs))"
    using one_live_run [of e evs] by (simp add: one_live_def)
  have d: "card (open_bitmaps (snd (run e evs))) \<le> 1"
    unfolding c by (rule held_bitmaps_card)
  from a b c d show ?thesis by blast
qed

lemma demo_main_parse:
  "parseInMainThread main_env demo_file demo_app one_bitmap =
     (None,
      demo_app\<lparr>parsed := Some \<lparr>fileName = ''Logo.PSD'', width = 100, height = 100,
                                bitmap = 4, usedWorker = False\<rparr>\<rparr>,
      \<lparr>next_bitmap = 5, open_bitmaps = {4}\<rparr>,
      [ReadPsd [56, 66, 80, 83] main_thread_options])"
proof -
  have "insert 4 {3} - {3} = {4::nat}" by auto
  then show ?thesis
    by (simp add: parseInMainThread_def main_env_def demo_file_def demo_readPsd_def
        demo_psd_def demo_app_def demo_composite_def one_bitmap_def new_bitmap_def
        setParsed_def close_bitmap_def)
qed

theorem previous_bitmap_released_witness:
  "parsed demo_app = Some demo_composite
   \<and> open_bitmaps (snd (worker_onmessage (ParsedMsg ''b.psd'' 2 2 4) demo_app two_bitmaps)) = {4}
   \<and> open_bitmaps (fst (snd (snd (parseInMainThread main_env demo_file demo_app one_bitmap))))
        = {4}
   \<and> card (open_bitmaps (snd (run worker_env [Selected demo_file, Selected demo_file]))) \<le> 1"
proof -
  let ?S = "demo_app\<lparr>parsed := Some \<lparr>fileName = ''Logo.PSD'', width = 100, height = 100,
                                       bitmap = 4, usedWorker = False\<rparr>\<rparr>"
  let ?H = "\<lparr>next_bitmap = 5, open_bitmaps = {4}\<rparr>"
  let ?C = "[ReadPsd [56, 66, 80, 83] main_thread_options]"
  have p: "parsed demo_app = Some demo_composite"
    by (simp add: demo_app_def)
  have q: "open_bitmaps two_bitmaps - {bitmap demo_composite} = {4}"
    by (auto simp: two_bitmaps_def demo_composite_def)
  have m: "parseInMainThread main_env demo_file demo_app one_bitmap = (None, ?S, ?H, ?C)"
    by (rule demo_main_parse)
  have a: "open_bitmaps (snd (worker_onmessage (ParsedMsg ''b.psd'' 2 2 4) demo_app two_bitmaps))
             = open_bitmaps two_bitmaps - {bitmap demo_composite}"
    using previous_bitmap_released [where st = demo_app and prev = demo_composite
        and fname = "''b.psd''" and w = 2 and ht = 2 and b = 4 and h = two_bitmaps] p
    by blast
  have b: "open_bitmaps ?H =
             insert (next_bitmap one_bitmap) (open_bitmaps one_bitmap) - {bitmap demo_composite}"
    using previous_bitmap_released [where st = demo_app and prev = demo_composite
        and h = one_bitmap and e = main_env and f = demo_file
        and st' = ?S and h' = ?H and cs = ?C] p m
    by blast
  have c: "card (open_bitmaps (snd (run worker_env [Selected demo_file, Selected demo_file])))
             \<le> 1"
    using previous_bitmap_released [where e = worker_env
        and evs = "[Selected demo_file, Selected demo_file]"]
    by blast
  have "insert (next_bitmap one_bitmap) (open_bitmaps one_bitmap) - {bitmap demo_composite}
          = {4}"
    by (auto simp: one_bitmap_def demo_composite_def)
  with b have d:
    "open_bitmaps (fst (snd (snd (parseInMainThread main_env demo_file demo_app one_bitmap))))
       = {4}"
    by (simp only: m fst_conv snd_conv)
  from p a q c d show ?thesis by simp
qed


text \<open>
  C4. A file whose name does not end in a dot followed by p, s, d (each in either case)
  is rejected by \<^verbatim>\<open>handleFile\<close> with the extension message: no call is made (no
  decoder call, no message to the worker), no bitmap is created and the held composite
  is untouched. A readable file whose name does end so passes the check: with a worker
  its bytes are posted to it, without one the decoder is called on them.
\<close>

theorem extension_validation:
  "(\<not> ends_with_psd_ci (name f) \<longrightarrow>
      handleFile e f st h =
        (st\<lparr>error := Some ''Please select a .psd file.'', isParsing := False\<rparr>, h, []))
   \<and> (is_psd_ext ext \<and> name f = base @ ext \<and> arrayBuffer f = Inr buf \<longrightarrow>
        (workerRef e \<longrightarrow> posted (snd (snd (handleFile e f st h))) = [Parse (name f) buf])
      \<and> (\<not> workerRef e \<longrightarrow>
           decoder_calls (snd (snd (handleFile e f st h))) = [(buf, main_thread_options)]))"
proof -
  have a: "handleFile e f st h =
        (st\<lparr>error := Some ''Please select a .psd file.'', isParsing := False\<rparr>, h, [])"
    if "\<not> ends_with_psd_ci (name f)"
    using that by (rule handleFile_rejects)
  have b: "(workerRef e \<longrightarrow> posted (snd (snd (handleFile e f st h))) = [Parse (name f) buf])
      \<and> (\<not> workerRef e \<longrightarrow>
           decoder_calls (snd (snd (handleFile e f st h))) = [(buf, main_thread_options)])"
    if x: "is_psd_ext ext" and n: "name f = base @ ext" and r: "arrayBuffer f = Inr buf"
  proof -
    have v: "ends_with_psd_ci (name f)"
      unfolding n using x by (rule ends_with_psd_ci_append)
    show ?thesis
      by (simp add: handleFile_posts [OF v _ r] handleFile_main_calls [OF v]
          parseInMainThread_decoder_calls [OF r])
  qed
  from a b show ?thesis by blast
qed

theorem extension_validation_witness:
  "\<not> ends_with_psd_ci (name text_file)
   \<and> handleFile worker_env text_file demo_app one_bitmap =
       (demo_app\<lparr>error := Some ''Please select a .psd file.'', isParsing := False\<rparr>,
        one_bitmap, [])
   \<and> is_psd_ext ''.PSD''
   \<and> posted (snd (snd (handleFile worker_env demo_file demo_app one_bitmap))) =
       [Parse ''Logo.PSD'' [56, 66, 80, 83]]
   \<and> decoder_calls (snd (snd (handleFile main_env demo_file demo_app one_bitmap))) =
       [([56, 66, 80, 83], main_thread_options)]"
proof -
  have t: "\<not> ends_with_psd_ci (name text_file)"
    by (simp add: ends_with_psd_ci_def text_file_def)
  have x: "is_psd_ext ''.PSD''" by simp
  have n: "name demo_file = ''Logo'' @ ''.PSD''"
    and r: "arrayBuffer demo_file = Inr [56, 66, 80, 83]"
    by (simp_all add: demo_file_def)
  have w: "workerRef worker_env" "\<not> workerRef main_env"
    by (simp_all add: worker_env_def main_env_def)
  have a: "handleFile worker_env text_file demo_app one_bitmap =
       (demo_app\<lparr>error := Some ''Please select a .psd file.'', isParsing := False\<rparr>,
        one_bitmap, [])"
    using extension_validation [where f = text_file and e = worker_env and st = demo_app
        and h = one_bitmap] t
    by blast
  have b: "posted (snd (snd (handleFile worker_env demo_file demo_app one_bitmap))) =
       [Parse (name demo_file) [56, 66, 80, 83]]"
    using extension_validation [where f = demo_file and e = worker_env and st = demo_app
        and h = one_bitmap and ext = "''.PSD''" and base = "''Logo''"
        and buf = "[56, 66, 80, 83]"] x n r w
    by blast
  have c: "decoder_calls (snd (snd (handleFile main_env demo_file demo_app one_bitmap))) =
       [([56, 66, 80, 83], main_thread_options)]"
    using extension_validation [where f = demo_file and e = main_env and st = demo_app
        and h = one_bitmap and ext = "''.PSD''" and base = "''Logo''"
        and buf = "[56, 66, 80, 83]"] x n r w
    by blast
  from t a x b c show ?thesis
    by (simp add: demo_file_def)
qed

text \<open>
  C5. The worker answers a parse request with exactly one message. Where
  \<^verbatim>\<open>OffscreenCanvas\<close> is available: a document without a composite surface gives the
  "no composite" error and creates no bitmap; a document with a transferable surface
  gives the success message with the request's file name, the document's width and
  height and the new bitmap; a decoder that throws gives an error message and no
  bitmap.
\<close>

theorem worker_replies_once:
  "length (replies (snd (self_onmessage e (Parse fname buf) h))) = 1
   \<and> (worker_has_OffscreenCanvas e \<and> readPsd e buf worker_options = Inr d \<and>
        psd_canvas d = None \<longrightarrow>
        self_onmessage e (Parse fname buf) h =
          (h, [ReadPsd buf worker_options,
               WorkerPost (ErrorMsg
                 ''No composite image found in this PSD (or unsupported PSD features).'')]))
   \<and> (worker_has_OffscreenCanvas e \<and> readPsd e buf worker_options = Inr d \<and>
        psd_canvas d = Some c \<and> has_transferToImageBitmap c \<longrightarrow>
        replies (snd (self_onmessage e (Parse fname buf) h)) =
          [ParsedMsg fname (psd_width d) (psd_height d) (next_bitmap h)])
   \<and> (worker_has_OffscreenCanvas e \<and> readPsd e buf worker_options = Inl t \<longrightarrow>
        self_onmessage e (Parse fname buf) h =
          (h, [ReadPsd buf worker_options, WorkerPost (ErrorMsg (thrown_message t))]))
   \<and> (\<not> worker_has_OffscreenCanvas e \<longrightarrow>
        self_onmessage e (Parse fname buf) h =
          (h, [WorkerPost (ErrorMsg ''OffscreenCanvas is not supported in this browser.'')]))"
proof -
  have a: "length (replies (snd (self_onmessage e (Parse fname buf) h))) = 1"
    by (rule self_onmessage_replies_once)
  have b: "self_onmessage e (Parse fname buf) h =
          (h, [ReadPsd buf worker_options,
               WorkerPost (ErrorMsg
                 ''No composite image found in this PSD (or unsupported PSD features).'')])"
    if "worker_has_OffscreenCanvas e" "readPsd e buf worker_options = Inr d" "psd_canvas d = None"
    using that by (simp add: self_onmessage_def no_composite_reply_def)
  have c: "replies (snd (self_onmessage e (Parse fname buf) h)) =
          [ParsedMsg fname (psd_width d) (psd_height d) (next_bitmap h)]"
    if "worker_has_OffscreenCanvas e" "readPsd e buf worker_options = Inr d"
      "psd_canvas d = Some c" "has_transferToImageBitmap c"
    using that by (simp add: self_onmessage_def new_bitmap_def)
  have d: "self_onmessage e (Parse fname buf) h =
          (h, [ReadPsd buf worker_options, WorkerPost (ErrorMsg (thrown_message t))])"
    if "worker_has_OffscreenCanvas e" "readPsd e buf worker_options = Inl t"
    using that by (simp add: self_onmessage_def)
  have e: "self_onmessage e (Parse fname buf) h =
          (h, [WorkerPost (ErrorMsg ''OffscreenCanvas is not supported in this browser.'')])"
    if "\<not> worker_has_OffscreenCanvas e"
    using that by (simp add: self_onmessage_def)
  from a b c d e show ?thesis by blast
qed

theorem worker_replies_once_witness:
  "readPsd worker_env [0, 1] worker_options = Inr flat_psd
   \<and> psd_canvas flat_psd = None
   \<and> self_onmessage worker_env (Parse ''flat.psd'' [0, 1]) one_bitmap =
       (one_bitmap,
        [ReadPsd [0, 1] worker_options,
         WorkerPost (ErrorMsg
           ''No composite image found in this PSD (or unsupported PSD features).'')])
   \<and> replies (snd (self_onmessage worker_env (Parse ''Logo.PSD'' [56, 66, 80, 83]) one_bitmap))
       = [ParsedMsg ''Logo.PSD'' 100 100 4]
   \<and> self_onmessage worker_env (Parse ''empty.psd'' []) one_bitmap =
       (one_bitmap,
        [ReadPsd [] worker_options, WorkerPost (ErrorMsg ''Invalid signature'')])
   \<and> self_onmessage main_env (Parse ''Logo.PSD'' [56, 66, 80, 83]) one_bitmap =
       (one_bitmap,
        [WorkerPost (ErrorMsg ''OffscreenCanvas is not supported in this browser.'')])"
proof -
  have o: "worker_has_OffscreenCanvas worker_env" "\<not> worker_has_OffscreenCanvas main_env"
    by (simp_all add: worker_env_def main_env_def)
  have r1: "readPsd worker_env [0, 1] worker_options = Inr flat_psd"
    and r2: "readPsd worker_env [56, 66, 80, 83] worker_options = Inr demo_psd"
    and r3: "readPsd worker_env [] worker_options = Inl (ErrorObj ''Invalid signature'')"
    by (simp_all add: worker_env_def demo_readPsd_def)
  have c1: "psd_canvas flat_psd = None"
    and c2: "psd_canvas demo_psd = Some \<lparr>has_transferToImageBitmap = True\<rparr>"
    and c3: "has_transferToImageBitmap \<lparr>has_transferToImageBitmap = True\<rparr>"
    by (simp_all add: flat_psd_def demo_psd_def)
  have a: "self_onmessage worker_env (Parse ''flat.psd'' [0, 1]) one_bitmap =
       (one_bitmap,
        [ReadPsd [0, 1] worker_options,
         WorkerPost (ErrorMsg
           ''No composite image found in this PSD (or unsupported PSD features).'')])"
    using worker_replies_once [where e = worker_env and buf = "[0, 1]" and d = flat_psd
        and fname = "''flat.psd''" and h = one_bitmap] o r1 c1
    by blast
  have b: "replies (snd (self_onmessage worker_env (Parse ''Logo.PSD'' [56, 66, 80, 83])
               one_bitmap))
       = [ParsedMsg ''Logo.PSD'' (psd_width demo_psd) (psd_height demo_psd)
            (next_bitmap one_bitmap)]"
    using worker_replies_once [where e = worker_env and buf = "[56, 66, 80, 83]"
        and d = demo_psd and c = "\<lparr>has_transferToImageBitmap = True\<rparr>"
        and fname = "''Logo.PSD''" and h = one_bitmap] o r2 c2 c3
    by blast
  have c: "self_onmessage worker_env (Parse ''empty.psd'' []) one_bitmap =
       (one_bitmap,
        [ReadPsd [] worker_options,
         WorkerPost (ErrorMsg (thrown_message (ErrorObj ''Invalid signature'')))])"
    using worker_replies_once [where e = worker_env and buf = "[]"
        and t = "ErrorObj ''Invalid signature''"
        and fname = "''empty.psd''" and h = one_bitmap] o r3
    by blast
  have d: "self_onmessage main_env (Parse ''Logo.PSD'' [56, 66, 80, 83]) one_bitmap =
       (one_bitmap,
        [WorkerPost (ErrorMsg ''OffscreenCanvas is not supported in this browser.'')])"
    using worker_replies_once [where e = main_env and buf = "[56, 66, 80, 83]"
        and fname = "''Logo.PSD''" and h = one_bitmap] o
    by blast
  from r1 c1 a b c d show ?thesis
    by (simp add: demo_psd_def one_bitmap_def thrown_message_def)
qed

text \<open>
  C8. For every file, the decoder calls made by the worker on the requests that
  \<^verbatim>\<open>handleFile\<close> posts are the decoder calls \<^verbatim>\<open>handleFile\<close> makes itself when
  there is no worker: the same bytes and the same options. For a readable file with the
  extension this is one call, with layer image data and thumbnail both skipped. The two
  option records of the source are equal.
\<close>

theorem same_decoder_request:
  assumes "worker_has_OffscreenCanvas e"
  shows "concat (map (\<lambda>r. decoder_calls (snd (self_onmessage e r h')))
                  (posted (snd (snd (handleFile (e\<lparr>workerRef := True\<rparr>) f st h)))))
           = decoder_calls (snd (snd (handleFile (e\<lparr>workerRef := False\<rparr>) f st h)))
         \<and> (ends_with_psd_ci (name f) \<and> arrayBuffer f = Inr buf \<longrightarrow>
              decoder_calls (snd (snd (handleFile (e\<lparr>workerRef := False\<rparr>) f st h))) =
                [(buf, \<lparr>skipLayerImageData = True, skipThumbnail = True\<rparr>)])
         \<and> main_thread_options = worker_options"
proof -
  let ?w = "e\<lparr>workerRef := True\<rparr>" and ?m = "e\<lparr>workerRef := False\<rparr>"
  have o: "main_thread_options = worker_options"
    by (simp add: main_thread_options_def worker_options_def)
  have b: "decoder_calls (snd (snd (handleFile ?m f st h))) = [(buf, main_thread_options)]"
    if v: "ends_with_psd_ci (name f)" and r: "arrayBuffer f = Inr buf" for buf
    by (simp add: handleFile_main_calls [OF v] parseInMainThread_decoder_calls [OF r])
  have a: "concat (map (\<lambda>r. decoder_calls (snd (self_onmessage e r h')))
                  (posted (snd (snd (handleFile ?w f st h)))))
           = decoder_calls (snd (snd (handleFile ?m f st h)))"
  proof (cases "ends_with_psd_ci (name f)")
    case False
    then show ?thesis by (simp add: handleFile_rejects)
  next
    case True
    show ?thesis
    proof (cases "arrayBuffer f")
      case (Inl t)
      have "handleFile ?w f st h = (catch_error t (st\<lparr>error := None, isParsing := True\<rparr>), h, [])"
        using True Inl by (simp add: handleFile_def endsWith_psd_iff)
      moreover have "snd (snd (handleFile ?m f st h)) = []"
        by (simp add: handleFile_main_calls [OF True] parseInMainThread_unreadable [OF Inl])
      ultimately show ?thesis by simp
    next
      case (Inr buf)
      have "posted (snd (snd (handleFile ?w f st h))) = [Parse (name f) buf]"
        by (simp add: handleFile_posts [OF True _ Inr])
      then show ?thesis
        by (simp add: b [OF True Inr] self_onmessage_decoder_calls [OF assms] o)
    qed
  qed
  from a b o show ?thesis
    by (simp add: main_thread_options_def)
qed

theorem same_decoder_request_witness:
  "worker_has_OffscreenCanvas worker_env
   \<and> concat (map (\<lambda>r. decoder_calls (snd (self_onmessage worker_env r one_bitmap)))
        (posted (snd (snd (handleFile (worker_env\<lparr>workerRef := True\<rparr>) demo_file
                             demo_app one_bitmap)))))
       = [([56, 66, 80, 83], \<lparr>skipLayerImageData = True, skipThumbnail = True\<rparr>)]"
proof -
  have o: "worker_has_OffscreenCanvas worker_env"
    by (simp add: worker_env_def)
  have v: "ends_with_psd_ci (name demo_file)"
    and r: "arrayBuffer demo_file = Inr [56, 66, 80, 83]"
    by (simp_all add: ends_with_psd_ci_def demo_file_def)
  show ?thesis
    using same_decoder_request [OF o, where f = demo_file and buf = "[56, 66, 80, 83]"
        and h' = one_bitmap and st = demo_app and h = one_bitmap] o v r
    by simp
qed

end
